theory Spec2Isabelle
  imports Complex_Main "HOL-Library.Word"
begin

section \<open>Love Booth: layout catalog, compositor geometry, capture, upload, export, print\<close>

text \<open>
  A shallow embedding of the parts of the Love Booth client that its specification makes
  claims about. Each definition follows one function (or one table) of the TypeScript
  source and keeps its name, its branch order and its checks. JavaScript numbers that
  hold pixel sizes and counts are integers here (\<open>int\<close> where the source can go
  negative, \<open>nat\<close> for lengths and indices); bytes of a \<open>Uint8Array\<close> or a
  \<open>Uint8ClampedArray\<close> are \<open>8 word\<close>; promises that can reject and statements
  that can throw return a sum type with the error on the left.
\<close>

type_synonym byte = "8 word"

subsection \<open>Layout catalog (StripLayoutSelector.tsx)\<close>

text \<open>
  The interface \<open>StripLayout\<close>. Its \<open>preview\<close> field is a piece of markup that no
  claim reads; it is left out.
\<close>

record StripLayout =
  layout_id :: string
  layout_name :: string
  photoCount :: nat
  aspectRatio :: string

definition STRIP_LAYOUTS :: "StripLayout list" where
  "STRIP_LAYOUTS =
     [ \<lparr>layout_id = ''strip-3'', layout_name = ''Classic 3'', photoCount = 3, aspectRatio = ''2x6''\<rparr>,
       \<lparr>layout_id = ''strip-4'', layout_name = ''Classic 4'', photoCount = 4, aspectRatio = ''2x6''\<rparr>,
       \<lparr>layout_id = ''grid-4'', layout_name = ''Grid 4'', photoCount = 4, aspectRatio = ''4x6''\<rparr>,
       \<lparr>layout_id = ''wide-3'', layout_name = ''Wide 3'', photoCount = 3, aspectRatio = ''4x6''\<rparr> ]"

text \<open>
  Modelled from the spec: the source holds the table only and never looks a layout up by
  its id; the specification names the operation \<open>resolve(id) -> Layout | NotFound\<close>.
  It is the first entry of the table with that id, \<open>None\<close> standing for NotFound.
\<close>

definition resolve :: "string \<Rightarrow> StripLayout option" where
  "resolve i = find (\<lambda>l. layout_id l = i) STRIP_LAYOUTS"

subsection \<open>Compositor geometry (PhotoStripPreview.tsx, generateHighQualityStrip)\<close>

text \<open>
  The constants and the dimension computation at the head of
  \<open>generateHighQualityStrip\<close>. The third branch is the source's \<open>else\<close>: every
  layout string other than the three tested ones gets the wide geometry. \<open>n\<close> is
  \<open>photos.length\<close>; \<open>(photos.length - 1) * photoGap\<close> is negative for an empty list,
  so the sizes are integers.
\<close>

definition scale :: int where
  "scale = 4"

definition padding :: int where
  "padding = 40 * scale"

definition photoGap :: int where
  "photoGap = 20 * scale"

record dimensions =
  canvasWidth :: int
  canvasHeight :: int
  photoWidth :: int
  photoHeight :: int

definition stripDimensions :: "string \<Rightarrow> nat \<Rightarrow> dimensions" where
  "stripDimensions layout n =
     (if layout = ''strip-3'' \<or> layout = ''strip-4'' then
        (let pw = 600 * scale; ph = 600 * scale in
         \<lparr>canvasWidth = pw + padding * 2,
          canvasHeight = padding * 2 + int n * ph + (int n - 1) * photoGap,
          photoWidth = pw, photoHeight = ph\<rparr>)
      else if layout = ''grid-4'' then
        (let pw = 450 * scale; ph = 450 * scale in
         \<lparr>canvasWidth = padding * 2 + 2 * pw + photoGap,
          canvasHeight = padding * 2 + 2 * ph + photoGap,
          photoWidth = pw, photoHeight = ph\<rparr>)
      else
        (let pw = 800 * scale; ph = 300 * scale in
         \<lparr>canvasWidth = pw + padding * 2,
          canvasHeight = padding * 2 + int n * ph + (int n - 1) * photoGap,
          photoWidth = pw, photoHeight = ph\<rparr>))"

text \<open>
  The rectangle \<open>(x, y, w, h)\<close> that the \<open>forEach\<close> over the loaded images passes to
  \<open>drawImage\<close> for the image at \<open>index\<close>.
\<close>

record rect =
  rect_x :: int
  rect_y :: int
  rect_w :: int
  rect_h :: int

definition cellRect :: "string \<Rightarrow> nat \<Rightarrow> nat \<Rightarrow> rect" where
  "cellRect layout n index =
     (let d = stripDimensions layout n in
      if layout = ''strip-3'' \<or> layout = ''strip-4'' then
        \<lparr>rect_x = padding,
         rect_y = padding + int index * (photoHeight d + photoGap),
         rect_w = photoWidth d, rect_h = photoHeight d\<rparr>
      else if layout = ''grid-4'' then
        (let col = int (index mod 2); row = int (index div 2) in
         \<lparr>rect_x = padding + col * (photoWidth d + photoGap),
          rect_y = padding + row * (photoHeight d + photoGap),
          rect_w = photoWidth d, rect_h = photoHeight d\<rparr>)
      else
        \<lparr>rect_x = padding,
         rect_y = padding + int index * (photoHeight d + photoGap),
         rect_w = photoWidth d, rect_h = photoHeight d\<rparr>)"

subsection \<open>Capture session (CaptureMode.tsx)\<close>

text \<open>
  The component state of \<open>CaptureMode\<close> that the capture handlers read and write.
  \<open>countdown\<close> is \<open>number | null\<close>; \<open>intervals\<close> counts the timers created by
  \<open>setInterval\<close> and not yet cleared. Calls to \<open>toast\<close> and the release of the
  camera stream do not touch this state and are left out of the handlers below.
\<close>

datatype Mode = Choose | Upload | Camera

record capture_state =
  mode :: Mode
  selectedLayout :: StripLayout
  photos :: "string list"
  countdown :: "nat option"
  timerDuration :: nat
  cameraReady :: bool
  intervals :: nat

definition requiredPhotos :: "capture_state \<Rightarrow> nat" where
  "requiredPhotos s = photoCount (selectedLayout s)"

definition initial_state :: capture_state where
  "initial_state =
     \<lparr>mode = Choose, selectedLayout = hd STRIP_LAYOUTS, photos = [], countdown = None,
      timerDuration = 3, cameraReady = False, intervals = 0\<rparr>"

text \<open>
  \<open>canvas.toDataURL("image/png", 1.0)\<close> returns a PNG data URL: the fixed header
  followed by the base64 payload of the pixels drawn.
\<close>

definition png_data_url :: "string \<Rightarrow> string" where
  "png_data_url payload = ''data:image/png;base64,'' @ payload"

text \<open>
  What \<open>capturePhoto\<close> finds behind \<open>videoRef\<close> and \<open>canvasRef\<close>: whether the
  canvas gives a 2d context, the video's width, and the base64 payload of the frame
  drawn. The argument of \<open>capturePhoto\<close> is \<open>None\<close> when either ref is null (the
  elements are not mounted).
\<close>

record video =
  hasContext :: bool
  videoWidth :: nat
  frame :: string

definition capturePhoto :: "video option \<Rightarrow> capture_state \<Rightarrow> capture_state" where
  "capturePhoto v s =
     (case v of
        None \<Rightarrow> s
      | Some vid \<Rightarrow>
          if hasContext vid \<and> 0 < videoWidth vid
          then s\<lparr>photos := photos s @ [png_data_url (frame vid)]\<rparr>
          else s)"

text \<open>
  \<open>startCountdown\<close> is a closure of the render that created it: its guard
  \<open>if (countdown !== null) return\<close> tests the \<open>countdown\<close> of that render, and
  \<open>setCountdown(timerDuration)\<close> stores that render's \<open>timerDuration\<close>. Both are
  arguments here; the state argument is the component state at the time of the call. Two
  calls from one render with a null \<open>countdown\<close> both pass the guard and create two
  intervals.
\<close>

definition startCountdown :: "nat option \<Rightarrow> nat \<Rightarrow> capture_state \<Rightarrow> capture_state" where
  "startCountdown closure_countdown closure_timerDuration s =
     (if closure_countdown \<noteq> None then s
      else s\<lparr>countdown := Some closure_timerDuration, intervals := intervals s + 1\<rparr>)"

text \<open>
  The callback that \<open>startCountdown\<close> hands to \<open>setInterval\<close>, run once a second:
  at \<open>prev === 1\<close> it clears its interval, captures and resets the countdown to null;
  otherwise \<open>prev ? prev - 1 : null\<close>.
\<close>

definition tick :: "video option \<Rightarrow> capture_state \<Rightarrow> capture_state" where
  "tick v s =
     (case countdown s of
        None \<Rightarrow> s
      | Some prev \<Rightarrow>
          if prev = 1
          then (capturePhoto v (s\<lparr>intervals := intervals s - 1\<rparr>))\<lparr>countdown := None\<rparr>
          else s\<lparr>countdown := (if prev \<noteq> 0 then Some (prev - 1) else None)\<rparr>)"

fun ticks :: "video option list \<Rightarrow> capture_state \<Rightarrow> capture_state" where
  "ticks [] s = s"
| "ticks (v # vs) s = ticks vs (tick v s)"

text \<open>\<open>prev.filter((_, i) => i !== index)\<close>: the entries whose position is not \<open>index\<close>.\<close>

definition deletePhoto_list :: "nat \<Rightarrow> 'a list \<Rightarrow> 'a list" where
  "deletePhoto_list index prev =
     map fst (filter (\<lambda>(p, i). i \<noteq> index) (zip prev [0 ..< length prev]))"

definition deletePhoto :: "nat \<Rightarrow> capture_state \<Rightarrow> capture_state" where
  "deletePhoto index s = s\<lparr>photos := deletePhoto_list index (photos s)\<rparr>"

definition stopCamera :: "capture_state \<Rightarrow> capture_state" where
  "stopCamera s = s\<lparr>cameraReady := False, mode := Choose, photos := []\<rparr>"

text \<open>
  \<open>handleDone\<close> hands the photos to the parent, which leaves the capture screen; of the
  capture state only the reset by \<open>stopCamera\<close> remains.
\<close>

definition handleDone :: "capture_state \<Rightarrow> capture_state" where
  "handleDone s = (if length (photos s) = requiredPhotos s then stopCamera s else s)"

text \<open>
  The controls as the component renders them. In camera mode the action button is
  \<open>Take Photo\<close> while \<open>photos.length < requiredPhotos\<close> (disabled during a countdown
  and until the camera is ready) and \<open>Continue to Preview\<close> otherwise; a thumbnail
  carries its delete button when \<open>photos[i]\<close> is a non-empty string and
  \<open>i < requiredPhotos\<close>. The layout selector and the \<open>Use Camera\<close> button exist in
  choose mode only.
\<close>

definition takePhotoShown :: "capture_state \<Rightarrow> bool" where
  "takePhotoShown s = (mode s = Camera \<and> length (photos s) < requiredPhotos s)"

definition takePhotoEnabled :: "capture_state \<Rightarrow> bool" where
  "takePhotoEnabled s = (takePhotoShown s \<and> \<not> (countdown s \<noteq> None \<or> \<not> cameraReady s))"

definition deleteShown :: "nat \<Rightarrow> capture_state \<Rightarrow> bool" where
  "deleteShown i s =
     (mode s = Camera \<and> i < requiredPhotos s \<and> i < length (photos s) \<and> photos s ! i \<noteq> [])"

datatype ui_event =
    ClickTakePhoto
  | ClickContinue
  | ClickDelete nat
  | ClickBack
  | ClickTimer nat
  | SelectLayout nat
  | CameraGranted
  | VideoLoaded
  | TrackEnded
  | IntervalFires video

text \<open>
  One event of the interface applied to the state: the handler of the control when the
  control is rendered and enabled, no change otherwise. The video and canvas elements are
  mounted in camera mode only, so a timer that fires in another mode finds null refs.
  A click runs the handler of the latest render. The updates that a click handler makes
  are rendered before the next event is handled, and a countdown is only ever started by
  a click, so the \<open>countdown\<close> and \<open>timerDuration\<close> that the clicked
  \<open>startCountdown\<close> holds are taken to be those of the state.
\<close>

definition step :: "ui_event \<Rightarrow> capture_state \<Rightarrow> capture_state" where
  "step e s =
     (case e of
        ClickTakePhoto \<Rightarrow>
          if takePhotoEnabled s then startCountdown (countdown s) (timerDuration s) s else s
      | ClickContinue \<Rightarrow>
          if mode s = Camera \<and> \<not> length (photos s) < requiredPhotos s then handleDone s else s
      | ClickDelete i \<Rightarrow> if deleteShown i s then deletePhoto i s else s
      | ClickBack \<Rightarrow> if mode s = Camera then stopCamera s else s
      | ClickTimer t \<Rightarrow>
          if mode s = Camera \<and> t \<in> {3, 5, 10} then s\<lparr>timerDuration := t\<rparr> else s
      | SelectLayout k \<Rightarrow>
          if mode s = Choose \<and> k < length STRIP_LAYOUTS
          then s\<lparr>selectedLayout := STRIP_LAYOUTS ! k\<rparr> else s
      | CameraGranted \<Rightarrow> if mode s = Choose then s\<lparr>mode := Camera\<rparr> else s
      | VideoLoaded \<Rightarrow> if mode s = Camera then s\<lparr>cameraReady := True\<rparr> else s
      | TrackEnded \<Rightarrow> if mode s = Camera then stopCamera s else s
      | IntervalFires vid \<Rightarrow>
          if 0 < intervals s then tick (if mode s = Camera then Some vid else None) s else s)"

inductive reachable :: "capture_state \<Rightarrow> bool" where
  reachable_init: "reachable initial_state"
| reachable_step: "reachable s \<Longrightarrow> reachable (step e s)"

fun run :: "ui_event list \<Rightarrow> capture_state \<Rightarrow> capture_state" where
  "run [] s = s"
| "run (e # es) s = run es (step e s)"

text \<open>
  The invariant of the capture session: the selected layout is one of the catalog, the
  timer is one of the three options, exactly one interval is live while a countdown is
  shown and none otherwise, a countdown is only ever active on an incomplete set, the set
  holds no more than the required photos, photos exist in camera mode only, and every
  photo is a non-empty data URL.
\<close>

definition capture_inv :: "capture_state \<Rightarrow> bool" where
  "capture_inv s =
     (selectedLayout s \<in> set STRIP_LAYOUTS
      \<and> timerDuration s \<in> {3, 5, 10}
      \<and> (case countdown s of
            None \<Rightarrow> intervals s = 0
          | Some n \<Rightarrow> intervals s = 1 \<and> 0 < n \<and> length (photos s) < requiredPhotos s)
      \<and> length (photos s) \<le> requiredPhotos s
      \<and> (mode s \<noteq> Camera \<longrightarrow> photos s = [])
      \<and> [] \<notin> set (photos s))"

subsection \<open>Upload path (CaptureMode.tsx, handleFileUpload)\<close>

text \<open>
  A file of the picker: its MIME type, its name, and what happens when it is read and
  decoded. \<open>FileReader\<close> ends in \<open>onerror\<close> or in \<open>onload\<close> with a data URL (empty
  when \<open>result\<close> is missing); the \<open>Image\<close> then ends in \<open>onerror\<close> or \<open>onload\<close>;
  in \<open>onload\<close> the canvas has no 2d context, or drawing throws, or the 1000x1000 crop is
  drawn and \<open>canvas.toDataURL\<close> returns the PNG data URL of the given payload.
\<close>

datatype canvas_outcome = NoContext | DrawThrows | Drawn string

datatype image_outcome = ImageError | ImageLoad canvas_outcome

datatype reader_outcome = ReaderError | ReaderLoad string image_outcome

record upload_file =
  file_type :: string
  file_name :: string
  file_read :: reader_outcome

text \<open>The \<open>i\<close> flag of the regular expression: ASCII letters compare without case.\<close>

definition lower_ascii :: "char \<Rightarrow> char" where
  "lower_ascii c =
     (case map_of (zip ''ABCDEFGHIJKLMNOPQRSTUVWXYZ'' ''abcdefghijklmnopqrstuvwxyz'') c of
        Some l \<Rightarrow> l
      | None \<Rightarrow> c)"

definition ends_with :: "string \<Rightarrow> string \<Rightarrow> bool" where
  "ends_with s t = (length t \<le> length s \<and> drop (length s - length t) s = t)"

definition starts_with :: "string \<Rightarrow> string \<Rightarrow> bool" where
  "starts_with s t = (take (length t) s = t)"

definition image_extensions :: "string list" where
  "image_extensions = [''jpg'', ''jpeg'', ''png'', ''gif'', ''webp'', ''heic'', ''heif'', ''bmp'']"

text \<open>
  The filter predicate of \<open>validFiles\<close>:
  \<open>f.type.startsWith("image/") || /\.(jpg|jpeg|png|gif|webp|heic|heif|bmp)$/i.test(f.name)\<close>.
\<close>

definition isImageFile :: "upload_file \<Rightarrow> bool" where
  "isImageFile f =
     (starts_with (file_type f) ''image/''
      \<or> list_ex (\<lambda>e. ends_with (map lower_ascii (file_name f)) (CHR ''.'' # e)) image_extensions)"

text \<open>The string that the promise created for one file resolves with.\<close>

definition processFile :: "upload_file \<Rightarrow> string" where
  "processFile f =
     (case file_read f of
        ReaderError \<Rightarrow> []
      | ReaderLoad dataUrl img \<Rightarrow>
          if dataUrl = [] then []
          else (case img of
                  ImageError \<Rightarrow> []
                | ImageLoad NoContext \<Rightarrow> dataUrl
                | ImageLoad DrawThrows \<Rightarrow> dataUrl
                | ImageLoad (Drawn payload) \<Rightarrow> png_data_url payload))"

text \<open>
  A file decodes when the reader delivers a non-empty data URL and the image loads.
\<close>

definition decodes :: "upload_file \<Rightarrow> bool" where
  "decodes f =
     (case file_read f of
        ReaderError \<Rightarrow> False
      | ReaderLoad dataUrl img \<Rightarrow> dataUrl \<noteq> [] \<and> img \<noteq> ImageError)"

text \<open>Template literals print a number in decimal.\<close>

definition digit_char :: "nat \<Rightarrow> char" where
  "digit_char d = ''0123456789'' ! d"

function decimal :: "nat \<Rightarrow> string" where
  "decimal n = (if n < 10 then [digit_char n] else decimal (n div 10) @ [digit_char (n mod 10)])"
  by pat_completeness auto
termination
  by (relation "measure (\<lambda>n. n)") auto

declare decimal.simps [simp del]

text \<open>
  What \<open>handleFileUpload\<close> does that can be seen from outside, in order: toasts, the
  reset of the file input (\<open>fileInputRef.current.value = ""\<close>, when the ref is set) and
  the call of \<open>onPhotosReady\<close>. The handler never calls \<open>setPhotos\<close>.
\<close>

datatype upload_effect =
    ToastError string
  | ToastInfo string
  | ToastSuccess string
  | ResetInput
  | OnPhotosReady "string list" string

definition resetInput :: "bool \<Rightarrow> upload_effect list" where
  "resetInput inputMounted = (if inputMounted then [ResetInput] else [])"

definition handleFileUpload ::
  "nat \<Rightarrow> string \<Rightarrow> bool \<Rightarrow> upload_file list \<Rightarrow> upload_effect list" where
  "handleFileUpload required layoutId inputMounted files =
     (if length files = 0 then []
      else if length files \<noteq> required then
        ToastError (''Please select exactly '' @ decimal required @ '' photos'')
          # resetInput inputMounted
      else
        (let validFiles = filter isImageFile files in
         if length validFiles \<noteq> length files then
           ToastError ''Please select only image files'' # resetInput inputMounted
         else
           (let processedPhotos = map processFile validFiles;
                validPhotos = filter (\<lambda>p. p \<noteq> []) processedPhotos
            in ToastInfo ''Processing images...''
                 # resetInput inputMounted
                 @ (if length validPhotos = required
                    then [OnPhotosReady validPhotos layoutId,
                          ToastSuccess ''Photos uploaded successfully!'']
                    else [ToastError (''Only '' @ decimal (length validPhotos) @ '' of ''
                            @ decimal required @ '' photos loaded. Please try again.'')]))))"

text \<open>The photos handed to the parent, if any, and whether some error toast was shown.\<close>

definition forwarded :: "upload_effect list \<Rightarrow> (string list \<times> string) list" where
  "forwarded es = concat (map (\<lambda>e. case e of OnPhotosReady ps l \<Rightarrow> [(ps, l)] | _ \<Rightarrow> []) es)"

definition error_toasts :: "upload_effect list \<Rightarrow> string list" where
  "error_toasts es = concat (map (\<lambda>e. case e of ToastError m \<Rightarrow> [m] | _ \<Rightarrow> []) es)"

subsection \<open>Monochrome transform (PhotoStripPreview.tsx, generateHighQualityStrip)\<close>

text \<open>
  The grayscale loop over \<open>imageData.data\<close>, a \<open>Uint8ClampedArray\<close>. A JavaScript
  number is a rational here, \<open>None\<close> standing for NaN. The sum of three channels is an
  integer of at most 765; the double nearest to a third of it lies on the same side of
  every half-integer as the exact third (which is at least 1/6 away from each), so the
  conversion below sees the same case with the exact quotient as with the double.

  \<open>ToUint8Clamp\<close> is the conversion of the language standard for a store into a
  \<open>Uint8ClampedArray\<close>: NaN gives 0, the number is clamped to 0..255 and rounded to
  the nearest integer, ties to even.
\<close>

definition ToUint8Clamp :: "rat option \<Rightarrow> byte" where
  "ToUint8Clamp x =
     (case x of
        None \<Rightarrow> 0
      | Some number \<Rightarrow>
          (let clamped = min (max number 0) 255; f = \<lfloor>clamped\<rfloor> in
           if clamped < of_int f + 1 / 2 then word_of_int f
           else if of_int f + 1 / 2 < clamped then word_of_int (f + 1)
           else if even f then word_of_int f else word_of_int (f + 1)))"

text \<open>
  \<open>data[j]\<close> read as a number: past the end it is \<open>undefined\<close>, which makes the
  sum NaN. A store past the end of a typed array is ignored, as \<open>list_update\<close> does.
\<close>

definition element :: "byte list \<Rightarrow> nat \<Rightarrow> rat option" where
  "element data j = (if j < length data then Some (of_nat (unat (data ! j))) else None)"

definition average :: "rat option \<Rightarrow> rat option \<Rightarrow> rat option \<Rightarrow> rat option" where
  "average r g b =
     (case (r, g, b) of
        (Some x, Some y, Some z) \<Rightarrow> Some ((x + y + z) / 3)
      | _ \<Rightarrow> None)"

definition store :: "byte list \<Rightarrow> nat \<Rightarrow> rat option \<Rightarrow> byte list" where
  "store data j v = data[j := ToUint8Clamp v]"

text \<open>\<open>for (let i = 0; i < data.length; i += 4)\<close>, from index \<open>i\<close> on.\<close>

function grayscaleLoop :: "nat \<Rightarrow> byte list \<Rightarrow> byte list" where
  "grayscaleLoop i data =
     (if i < length data then
        (let avg = average (element data i) (element data (i + 1)) (element data (i + 2));
             data1 = store data i avg;
             data2 = store data1 (i + 1) avg;
             data3 = store data2 (i + 2) avg
         in grayscaleLoop (i + 4) data3)
      else data)"
  by pat_completeness auto
termination
  by (relation "measure (\<lambda>(i, data). length data - i)") (auto simp: store_def)

declare grayscaleLoop.simps [simp del]

definition grayscale :: "byte list \<Rightarrow> byte list" where
  "grayscale data = grayscaleLoop 0 data"

text \<open>
  The transform as the specification words it, for comparison with the loop: each pixel's
  R, G and B are replaced by the average \<open>(R+G+B)/3\<close> as the clamped array stores it,
  alpha is kept. \<open>grayPixels\<close> also covers a buffer whose length is not a multiple of 4,
  where the loop reads past the end.
\<close>

definition avgByte :: "byte \<Rightarrow> byte \<Rightarrow> byte \<Rightarrow> byte" where
  "avgByte r g b =
     ToUint8Clamp (Some ((of_nat (unat r) + of_nat (unat g) + of_nat (unat b)) / 3))"

fun grayPixels :: "byte list \<Rightarrow> byte list" where
  "grayPixels (r # g # b # a # rest) =
     avgByte r g b # avgByte r g b # avgByte r g b # a # grayPixels rest"
| "grayPixels [r, g, b] = [avgByte r g b, avgByte r g b, avgByte r g b]"
| "grayPixels [r, g] = [0, 0]"
| "grayPixels [r] = [0]"
| "grayPixels [] = []"

subsection \<open>Export (useImageDownload, downloadImage)\<close>

text \<open>
  A thrown value or the reason of a rejected promise.
\<close>

datatype js_error = JsError string

text \<open>
  The two refs of the hook, and the browser as \<open>downloadImage\<close> meets it: which of the
  calls of the \<open>try\<close> block throws (\<open>dataUrlToBlob\<close> with its \<open>atob\<close>,
  \<open>URL.createObjectURL\<close>, \<open>document.createElement\<close>, \<open>appendChild\<close>,
  \<open>link.click\<close>), the object URL handed out, and whether the user agent names the
  Median web view.
\<close>

record download_refs =
  isDownloadingRef :: bool
  objectUrlRef :: "string option"

datatype download_call = DataUrlToBlob | CreateObjectURL | CreateElement | AppendChild | LinkClick

record browser =
  throws :: "download_call \<Rightarrow> js_error option"
  objectUrl :: string
  isMedianWebView :: bool

datatype download_effect =
    RevokeObjectURL string
  | LinkAppended
  | LinkClicked string string
  | CleanupScheduled nat
  | ConsoleError js_error

definition cleanupObjectUrl :: "download_refs \<Rightarrow> download_refs \<times> download_effect list" where
  "cleanupObjectUrl refs =
     (case objectUrlRef refs of
        None \<Rightarrow> (refs, [])
      | Some u \<Rightarrow>
          if u = [] then (refs, [])
          else (refs\<lparr>objectUrlRef := None\<rparr>, [RevokeObjectURL u]))"

text \<open>
  The \<open>try\<close> block of \<open>downloadImage\<close>: its result (\<open>Inl\<close> for the value thrown),
  the refs and the effects up to that point.
\<close>

definition download_try ::
  "browser \<Rightarrow> string \<Rightarrow> string \<Rightarrow> download_refs
     \<Rightarrow> (js_error + bool) \<times> download_refs \<times> download_effect list" where
  "download_try B dataUrl filename refs =
     (let (refs1, fx) = cleanupObjectUrl refs in
      case throws B DataUrlToBlob of Some e \<Rightarrow> (Inl e, refs1, fx) | None \<Rightarrow>
      case throws B CreateObjectURL of Some e \<Rightarrow> (Inl e, refs1, fx) | None \<Rightarrow>
      (let refs2 = refs1\<lparr>objectUrlRef := Some (objectUrl B)\<rparr> in
       case throws B CreateElement of Some e \<Rightarrow> (Inl e, refs2, fx) | None \<Rightarrow>
       if isMedianWebView B then
         (case throws B AppendChild of Some e \<Rightarrow> (Inl e, refs2, fx) | None \<Rightarrow>
          case throws B LinkClick of Some e \<Rightarrow> (Inl e, refs2, fx @ [LinkAppended]) | None \<Rightarrow>
          (Inr True, refs2,
           fx @ [LinkAppended, LinkClicked (objectUrl B) filename, CleanupScheduled 100]))
       else
         (case throws B LinkClick of Some e \<Rightarrow> (Inl e, refs2, fx) | None \<Rightarrow>
          (Inr True, refs2,
           fx @ [LinkClicked (objectUrl B) filename, CleanupScheduled 1000]))))"

text \<open>
  \<open>downloadImage\<close>: the guard on \<open>isDownloadingRef\<close>, the \<open>try\<close> block, the
  \<open>catch\<close> clause (log, clean up, \<open>return false\<close>) and the \<open>finally\<close> clause that
  clears the flag. The result is what the returned promise settles with: \<open>Inr\<close> when
  it resolves, \<open>Inl\<close> when it rejects.
\<close>

definition downloadImage ::
  "browser \<Rightarrow> string \<Rightarrow> string \<Rightarrow> download_refs
     \<Rightarrow> (js_error + bool) \<times> download_refs \<times> download_effect list" where
  "downloadImage B dataUrl filename refs =
     (if isDownloadingRef refs then (Inr False, refs, [])
      else
        (let (res, refs1, fx) = download_try B dataUrl filename (refs\<lparr>isDownloadingRef := True\<rparr>);
             (res', refs2, fx') =
               (case res of
                  Inr b \<Rightarrow> (Inr b, refs1, fx)
                | Inl e \<Rightarrow>
                    (let (refs3, cfx) = cleanupObjectUrl refs1
                     in (Inr False, refs3, fx @ [ConsoleError e] @ cfx)))
         in (res', refs2\<lparr>isDownloadingRef := False\<rparr>, fx')))"

text \<open>
  The browser calls that the \<open>try\<close> block makes when none of them throws, in order.
\<close>

definition calls_made :: "browser \<Rightarrow> download_call list" where
  "calls_made B =
     (if isMedianWebView B
      then [DataUrlToBlob, CreateObjectURL, CreateElement, AppendChild, LinkClick]
      else [DataUrlToBlob, CreateObjectURL, CreateElement, LinkClick])"

subsection \<open>Print pipeline (PhotoStripPreview.tsx, handleBluetoothPrint)\<close>

text \<open>
  The peripheral as the print path meets it. A characteristic has its two write
  properties, and \<open>writeValue c k chunk\<close> tells whether the call of \<open>writeValue\<close>
  that follows \<open>k\<close> earlier ones resolves (\<open>True\<close>) or rejects, given the chunk.
  \<open>getCharacteristics\<close> and \<open>getPrimaryServices\<close> are \<open>None\<close> when the promise
  rejects; \<open>gatt\<close> is \<open>None\<close> when the device has no GATT server, \<open>connect\<close> tells
  whether \<open>connect()\<close> resolves.
\<close>

record characteristic =
  char_uuid :: string
  prop_write :: bool
  prop_writeWithoutResponse :: bool
  writeValue :: "nat \<Rightarrow> byte list \<Rightarrow> bool"

record service =
  service_uuid :: string
  getCharacteristics :: "characteristic list option"

record gatt_server =
  connect :: bool
  getPrimaryServices :: "service list option"
  disconnect_throws :: bool

record bluetooth_device =
  gatt :: "gatt_server option"

text \<open>
  The rest of the world of a print attempt: \<open>generateHighQualityStrip\<close> rejects
  (\<open>None\<close>) or gives the image, taken here as the bytes that \<open>atob\<close> and the copy
  loop make of its base64 part; \<open>window_open\<close> tells whether \<open>window.open\<close> returns
  a window.
\<close>

record print_env =
  generateHighQualityStrip :: "byte list option"
  window_open :: bool

datatype print_event =
    SetIsPrinting bool
  | GattConnected
  | WriteValue string "byte list" bool
  | PrintToastSuccess string
  | PrintToastInfo string
  | PrintToastError string
  | PrintConsoleError js_error
  | Disconnected
  | HandleSystemPrint
  | PrintDialog

definition chunkSize :: nat where
  "chunkSize = 512"

text \<open>
  The chunk loop \<open>for (let i = 0; i < bytes.length; i += chunkSize)\<close> from index
  \<open>i\<close> on, with \<open>bytes.slice(i, i + chunkSize)\<close> and the awaited \<open>writeValue\<close>:
  the events, and whether every write resolved (a rejection ends the loop by throwing).
\<close>

function writeChunks :: "characteristic \<Rightarrow> byte list \<Rightarrow> nat \<Rightarrow> print_event list \<times> bool" where
  "writeChunks c bytes i =
     (if i < length bytes then
        (let chunk = take chunkSize (drop i bytes) in
         if writeValue c (i div chunkSize) chunk
         then (let (evs, ok) = writeChunks c bytes (i + chunkSize)
               in (WriteValue (char_uuid c) chunk True # evs, ok))
         else ([WriteValue (char_uuid c) chunk False], False))
      else ([], True))"
  by pat_completeness auto
termination
  by (relation "measure (\<lambda>(c, bytes, i). length bytes - i)") (auto simp: chunkSize_def)

declare writeChunks.simps [simp del]

definition writable :: "characteristic \<Rightarrow> bool" where
  "writable c = (prop_write c \<or> prop_writeWithoutResponse c)"

text \<open>
  The loop over the characteristics of one service: \<open>Inr printed\<close> when it ends
  normally, \<open>Inl\<close> when a write rejected.
\<close>

fun tryCharacteristics ::
  "characteristic list \<Rightarrow> byte list \<Rightarrow> print_event list \<times> (js_error + bool)" where
  "tryCharacteristics [] bytes = ([], Inr False)"
| "tryCharacteristics (c # cs) bytes =
     (if writable c then
        (let (evs, ok) = writeChunks c bytes 0 in
         if ok then (evs, Inr True) else (evs, Inl (JsError ''writeValue rejected'')))
      else tryCharacteristics cs bytes)"

text \<open>
  The loop over the services, with its \<open>try\<close> around each service: a rejected
  \<open>getCharacteristics\<close> or a rejected write is caught and the loop continues with the
  next service; \<open>printed\<close> ends the loop.
\<close>

fun tryServices :: "service list \<Rightarrow> byte list \<Rightarrow> print_event list \<times> bool" where
  "tryServices [] bytes = ([], False)"
| "tryServices (s # ss) bytes =
     (case getCharacteristics s of
        None \<Rightarrow> tryServices ss bytes
      | Some cs \<Rightarrow>
          (let (evs, r) = tryCharacteristics cs bytes in
           case r of
             Inr printed \<Rightarrow>
               if printed then (evs, True)
               else (let (evs', p) = tryServices ss bytes in (evs @ evs', p))
           | Inl e \<Rightarrow> (let (evs', p) = tryServices ss bytes in (evs @ evs', p))))"

definition handleSystemPrint :: "print_env \<Rightarrow> print_event list \<times> (js_error + unit)" where
  "handleSystemPrint env =
     (let (evs, r) =
            (case generateHighQualityStrip env of
               None \<Rightarrow> ([], Inl (JsError ''Failed to load image''))
             | Some png \<Rightarrow>
                 if \<not> window_open env
                 then ([PrintToastError ''Please allow popups to print''], Inr ())
                 else ([PrintDialog], Inr ()))
      in case r of
           Inr u \<Rightarrow> (HandleSystemPrint # evs, Inr ())
         | Inl e \<Rightarrow>
             (HandleSystemPrint # evs
                @ [PrintConsoleError e, PrintToastError ''Failed to print. Please try again.''],
              Inr ()))"

text \<open>The \<open>try\<close> block of \<open>handleBluetoothPrint\<close>.\<close>

definition bluetoothPrint_try ::
  "print_env \<Rightarrow> bluetooth_device \<Rightarrow> print_event list \<times> (js_error + unit)" where
  "bluetoothPrint_try env device =
     (case gatt device of
        None \<Rightarrow> ([], Inl (JsError ''Could not connect to device''))
      | Some server \<Rightarrow>
          if \<not> connect server then ([], Inl (JsError ''connect rejected''))
          else
            (case generateHighQualityStrip env of
               None \<Rightarrow> ([GattConnected], Inl (JsError ''Failed to load image''))
             | Some bytes \<Rightarrow>
                 (case getPrimaryServices server of
                    None \<Rightarrow> ([GattConnected], Inl (JsError ''getPrimaryServices rejected''))
                  | Some services \<Rightarrow>
                      (let (wevs, printed) = tryServices services bytes;
                           (tevs, r) =
                             (if printed then ([PrintToastSuccess ''Sent to printer!''], Inr ())
                              else
                                (let (sevs, sr) = handleSystemPrint env
                                 in (PrintToastInfo
                                       ''Direct print not supported. Opening print dialog...''
                                       # sevs, sr)))
                       in case r of
                            Inl e \<Rightarrow> (GattConnected # wevs @ tevs, Inl e)
                          | Inr u \<Rightarrow>
                              if disconnect_throws server
                              then (GattConnected # wevs @ tevs, Inl (JsError ''disconnect threw''))
                              else (GattConnected # wevs @ tevs @ [Disconnected], Inr ())))))"

definition handleBluetoothPrint ::
  "print_env \<Rightarrow> bluetooth_device \<Rightarrow> print_event list \<times> (js_error + unit)" where
  "handleBluetoothPrint env device =
     (let (evs, r) = bluetoothPrint_try env device;
          (evs', r') =
            (case r of
               Inr u \<Rightarrow> (evs, Inr ())
             | Inl e \<Rightarrow>
                 (let (sevs, sr) = handleSystemPrint env
                  in (evs @ [PrintConsoleError e,
                             PrintToastInfo ''Opening system print dialog instead...''] @ sevs,
                      sr)))
      in (SetIsPrinting True # evs' @ [SetIsPrinting False], r'))"

text \<open>
  The chunks of a buffer as the specification states them: \<open>ceil(N/512)\<close> pieces,
  piece \<open>k\<close> holding the bytes from \<open>k*512\<close> up to \<open>min((k+1)*512, N)\<close>.
\<close>

definition chunks :: "byte list \<Rightarrow> byte list list" where
  "chunks bytes =
     map (\<lambda>k. take (min ((k + 1) * 512) (length bytes) - k * 512) (drop (k * 512) bytes))
       [0 ..< (length bytes + 511) div 512]"

text \<open>
  Writing a list of chunks to a characteristic one after the other, the \<open>k\<close>-th call
  first, stopping at the first rejection; and whether a service carries the print: its
  characteristics can be listed and the first writable one takes every chunk.
\<close>

fun sendList :: "characteristic \<Rightarrow> nat \<Rightarrow> byte list list \<Rightarrow> print_event list \<times> bool" where
  "sendList c k [] = ([], True)"
| "sendList c k (ch # chs) =
     (if writeValue c k ch
      then (let (evs, ok) = sendList c (k + 1) chs in (WriteValue (char_uuid c) ch True # evs, ok))
      else ([WriteValue (char_uuid c) ch False], False))"

definition servicePrints :: "byte list \<Rightarrow> service \<Rightarrow> bool" where
  "servicePrints bytes s =
     (case getCharacteristics s of
        None \<Rightarrow> False
      | Some cs \<Rightarrow>
          (case find writable cs of
             None \<Rightarrow> False
           | Some c \<Rightarrow> snd (sendList c 0 (chunks bytes))))"

text \<open>
  Three behaviours of a characteristic: every write resolves, every write rejects, and
  the first \<open>n\<close> writes resolve while all later ones reject.
\<close>

definition resolves :: "nat \<Rightarrow> byte list \<Rightarrow> bool" where
  [simp]: "resolves k chunk = True"

definition rejects :: "nat \<Rightarrow> byte list \<Rightarrow> bool" where
  [simp]: "rejects k chunk = False"

definition rejects_from :: "nat \<Rightarrow> nat \<Rightarrow> byte list \<Rightarrow> bool" where
  [simp]: "rejects_from n k chunk = (k < n)"

text \<open>The events that are calls of \<open>writeValue\<close>.\<close>

definition is_write :: "print_event \<Rightarrow> bool" where
  "is_write e = (case e of WriteValue u ch ok \<Rightarrow> True | _ \<Rightarrow> False)"

section \<open>Theorems\<close>

subsection \<open>Compositor geometry of the 2x2 grid\<close>

lemma grid4_dimensions:
  "stripDimensions ''grid-4'' 4 =
     \<lparr>canvasWidth = 4000, canvasHeight = 4000, photoWidth = 1800, photoHeight = 1800\<rparr>"
  by (simp add: stripDimensions_def padding_def photoGap_def scale_def)

text \<open>
  C1, as the specification states it, fails: it puts four gaps into each side of the
  grid-4 canvas (\<open>padding*2 + 2*1800 + gap*4 = 4240\<close>), where the source adds the one
  gap that separates the two columns (and the two rows), giving 4000.
\<close>

theorem C1_grid4_canvas_counterexample:
  "canvasWidth (stripDimensions ''grid-4'' 4) \<noteq> padding * 2 + 2 * 1800 + photoGap * 4
   \<and> canvasHeight (stripDimensions ''grid-4'' 4) \<noteq> padding * 2 + 2 * 1800 + photoGap * 4"
  by (simp add: grid4_dimensions) (simp add: padding_def photoGap_def scale_def)

text \<open>
  C1 (amended): for the grid-4 layout with 4 photos the padding is \<open>40*4 = 160\<close> and the
  gap \<open>20*4 = 80\<close>, every photo cell is \<open>450*4 = 1800\<close> px wide and high, the canvas is
  square, and its width and its height both equal \<open>padding*2 + 2*1800 + gap = 4000\<close>
  (one gap, between the two columns and between the two rows). The four cells are drawn
  row-major at column \<open>i mod 2\<close> and row \<open>i div 2\<close>, each 1800 px square.
\<close>

theorem C1_grid4_canvas:
  "padding = 40 * 4 \<and> padding = 160 \<and> photoGap = 20 * 4 \<and> photoGap = 80
   \<and> photoWidth (stripDimensions ''grid-4'' 4) = 450 * 4
   \<and> photoHeight (stripDimensions ''grid-4'' 4) = 1800
   \<and> canvasWidth (stripDimensions ''grid-4'' 4) = canvasHeight (stripDimensions ''grid-4'' 4)
   \<and> canvasWidth (stripDimensions ''grid-4'' 4) = padding * 2 + 2 * 1800 + photoGap
   \<and> canvasHeight (stripDimensions ''grid-4'' 4) = padding * 2 + 2 * 1800 + photoGap
   \<and> canvasWidth (stripDimensions ''grid-4'' 4) = 4000
   \<and> map (cellRect ''grid-4'' 4) [0, 1, 2, 3] =
       [ \<lparr>rect_x = 160, rect_y = 160, rect_w = 1800, rect_h = 1800\<rparr>,
         \<lparr>rect_x = 2040, rect_y = 160, rect_w = 1800, rect_h = 1800\<rparr>,
         \<lparr>rect_x = 160, rect_y = 2040, rect_w = 1800, rect_h = 1800\<rparr>,
         \<lparr>rect_x = 2040, rect_y = 2040, rect_w = 1800, rect_h = 1800\<rparr> ]"
  by (simp add: grid4_dimensions cellRect_def) (simp add: padding_def photoGap_def scale_def)

subsection \<open>Layout catalog\<close>

lemma photoCount_catalog:
  "l \<in> set STRIP_LAYOUTS \<Longrightarrow> photoCount l = 3 \<or> photoCount l = 4"
  by (auto simp: STRIP_LAYOUTS_def)

lemma resolve_Some:
  "resolve i = Some l \<Longrightarrow> layout_id l = i \<and> l \<in> set STRIP_LAYOUTS"
  unfolding resolve_def by (auto simp: find_Some_iff)

text \<open>
  C8: the layout catalog is a fixed table of exactly four layouts, strip-3, strip-4,
  grid-4 and wide-3, with pairwise distinct ids; strip-3 and wide-3 take 3 photos,
  strip-4 and grid-4 take 4, so every photoCount is 3 or 4; and lookup by id is a
  function of the constant table: it returns the layout with that id, the same one at
  every call, and nothing for any other id.
\<close>

theorem C8_layout_catalog:
  "length STRIP_LAYOUTS = 4
   \<and> map layout_id STRIP_LAYOUTS = [''strip-3'', ''strip-4'', ''grid-4'', ''wide-3'']
   \<and> distinct (map layout_id STRIP_LAYOUTS)
   \<and> map photoCount STRIP_LAYOUTS = [3, 4, 4, 3]
   \<and> map resolve [''strip-3'', ''strip-4'', ''grid-4'', ''wide-3''] = map Some STRIP_LAYOUTS
   \<and> (\<forall>l \<in> set STRIP_LAYOUTS. resolve (layout_id l) = Some l \<and> photoCount l \<in> {3, 4})
   \<and> (\<forall>i l. resolve i = Some l \<longrightarrow> layout_id l = i \<and> l \<in> set STRIP_LAYOUTS \<and> photoCount l \<in> {3, 4})
   \<and> (\<forall>i. i \<notin> set (map layout_id STRIP_LAYOUTS) \<longrightarrow> resolve i = None)"
proof -
  have a: "length STRIP_LAYOUTS = 4" by (simp add: STRIP_LAYOUTS_def)
  have b: "map layout_id STRIP_LAYOUTS = [''strip-3'', ''strip-4'', ''grid-4'', ''wide-3'']"
    by (simp add: STRIP_LAYOUTS_def)
  have c: "distinct (map layout_id STRIP_LAYOUTS)" by (simp add: b)
  have d: "map photoCount STRIP_LAYOUTS = [3, 4, 4, 3]" by (simp add: STRIP_LAYOUTS_def)
  have e: "map resolve [''strip-3'', ''strip-4'', ''grid-4'', ''wide-3''] = map Some STRIP_LAYOUTS"
    by (simp add: resolve_def STRIP_LAYOUTS_def)
  have f: "\<forall>l \<in> set STRIP_LAYOUTS. resolve (layout_id l) = Some l \<and> photoCount l \<in> {3, 4}"
    by (simp add: resolve_def STRIP_LAYOUTS_def)
  have g: "\<forall>i l. resolve i = Some l \<longrightarrow> layout_id l = i \<and> l \<in> set STRIP_LAYOUTS \<and> photoCount l \<in> {3, 4}"
    using resolve_Some photoCount_catalog by blast
  have h: "\<forall>i. i \<notin> set (map layout_id STRIP_LAYOUTS) \<longrightarrow> resolve i = None"
    unfolding resolve_def by (auto simp: find_None_iff)
  from a b c d e f g h show ?thesis by blast
qed

theorem C8_layout_catalog_witness:
  "resolve ''grid-4'' = Some (STRIP_LAYOUTS ! 2) \<and> photoCount (STRIP_LAYOUTS ! 2) = 4
   \<and> resolve ''strip-9'' = None"
proof -
  have m: "STRIP_LAYOUTS ! 2 \<in> set STRIP_LAYOUTS" by (simp add: STRIP_LAYOUTS_def)
  have i: "layout_id (STRIP_LAYOUTS ! 2) = ''grid-4''" by (simp add: STRIP_LAYOUTS_def)
  have n: "''strip-9'' \<notin> set (map layout_id STRIP_LAYOUTS)" by (simp add: STRIP_LAYOUTS_def)
  have p: "photoCount (STRIP_LAYOUTS ! 2) = 4" by (simp add: STRIP_LAYOUTS_def)
  from C8_layout_catalog m i n p show ?thesis by metis
qed

subsection \<open>Capture session: deleting, the invariant, countdowns\<close>

lemma deletePhoto_list_take_drop:
  "deletePhoto_list i xs = take i xs @ drop (Suc i) xs"
proof -
  have "deletePhoto_list i xs = nths xs {j. j \<noteq> i}"
    unfolding deletePhoto_list_def nths_def by (simp add: case_prod_unfold)
  also have "\<dots> = take i xs @ drop (Suc i) xs"
  proof (induction xs arbitrary: i)
    case Nil then show ?case by simp
  next
    case (Cons x xs)
    show ?case
    proof (cases i)
      case 0
      have "{j. Suc j \<noteq> 0} = UNIV" by auto
      then show ?thesis using 0 by (simp add: nths_Cons nths_all)
    next
      case (Suc k)
      have "{j. Suc j \<noteq> Suc k} = {j. j \<noteq> k}" by auto
      then show ?thesis using Suc Cons.IH[of k] by (simp add: nths_Cons)
    qed
  qed
  finally show ?thesis .
qed

lemma length_deletePhoto_list:
  "i < length xs \<Longrightarrow> length (deletePhoto_list i xs) = length xs - 1"
  by (simp add: deletePhoto_list_take_drop)

lemma length_deletePhoto_list_le:
  "length (deletePhoto_list i xs) \<le> length xs"
  by (simp add: deletePhoto_list_take_drop)

lemma set_deletePhoto_list:
  "set (deletePhoto_list i xs) \<subseteq> set xs"
  unfolding deletePhoto_list_take_drop
  using set_take_subset[of i xs] set_drop_subset[of "Suc i" xs] by auto

lemma inv_required_pos: "capture_inv s \<Longrightarrow> 0 < requiredPhotos s"
  using photoCount_catalog[of "selectedLayout s"] by (auto simp: capture_inv_def requiredPhotos_def)

lemma inv_init: "capture_inv initial_state"
  by (simp add: capture_inv_def initial_state_def STRIP_LAYOUTS_def requiredPhotos_def)

lemma inv_stopCamera: "capture_inv s \<Longrightarrow> capture_inv (stopCamera s)"
  using inv_required_pos[of s]
  by (auto simp: capture_inv_def stopCamera_def requiredPhotos_def split: option.splits)

lemma inv_startCountdown:
  "capture_inv s \<Longrightarrow> takePhotoEnabled s \<Longrightarrow>
     capture_inv (startCountdown (countdown s) (timerDuration s) s)"
  by (auto simp: capture_inv_def startCountdown_def takePhotoEnabled_def takePhotoShown_def
      requiredPhotos_def split: option.splits)

lemma inv_deletePhoto: "capture_inv s \<Longrightarrow> capture_inv (deletePhoto i s)"
  using length_deletePhoto_list_le[of i "photos s"] set_deletePhoto_list[of i "photos s"]
  by (auto simp: capture_inv_def deletePhoto_def requiredPhotos_def deletePhoto_list_take_drop
      split: option.splits)

lemma inv_tick:
  "capture_inv s \<Longrightarrow> (mode s \<noteq> Camera \<longrightarrow> v = None) \<Longrightarrow> capture_inv (tick v s)"
  by (auto simp: capture_inv_def tick_def capturePhoto_def requiredPhotos_def png_data_url_def
      split: option.splits)

lemma inv_step: "capture_inv s \<Longrightarrow> capture_inv (step e s)"
proof (cases e)
  case ClickTakePhoto
  assume "capture_inv s" then show ?thesis using ClickTakePhoto by (simp add: step_def inv_startCountdown)
next
  case ClickContinue
  assume "capture_inv s" then show ?thesis using ClickContinue
    by (simp add: step_def handleDone_def inv_stopCamera)
next
  case (ClickDelete i)
  assume "capture_inv s" then show ?thesis using ClickDelete by (simp add: step_def inv_deletePhoto)
next
  case ClickBack
  assume "capture_inv s" then show ?thesis using ClickBack by (simp add: step_def inv_stopCamera)
next
  case (ClickTimer t)
  assume "capture_inv s" then show ?thesis using ClickTimer
    by (auto simp: step_def capture_inv_def requiredPhotos_def split: option.splits)
next
  case (SelectLayout k)
  assume i: "capture_inv s"
  show ?thesis
  proof (cases "mode s = Choose \<and> k < length STRIP_LAYOUTS")
    case True
    then have m: "STRIP_LAYOUTS ! k \<in> set STRIP_LAYOUTS" by simp
    from True i have p: "photos s = []" by (simp add: capture_inv_def)
    from photoCount_catalog[OF m] have "0 < photoCount (STRIP_LAYOUTS ! k)" by auto
    with i m p True show ?thesis using SelectLayout
      by (auto simp: step_def capture_inv_def requiredPhotos_def split: option.splits)
  next
    case False
    with i show ?thesis using SelectLayout by (auto simp: step_def)
  qed
next
  case CameraGranted
  assume "capture_inv s" then show ?thesis using CameraGranted
    by (auto simp: step_def capture_inv_def requiredPhotos_def split: option.splits)
next
  case VideoLoaded
  assume "capture_inv s" then show ?thesis using VideoLoaded
    by (auto simp: step_def capture_inv_def requiredPhotos_def split: option.splits)
next
  case TrackEnded
  assume "capture_inv s" then show ?thesis using TrackEnded by (simp add: step_def inv_stopCamera)
next
  case (IntervalFires vid)
  assume "capture_inv s" then show ?thesis using IntervalFires by (simp add: step_def inv_tick)
qed

lemma reachable_inv: "reachable s \<Longrightarrow> capture_inv s"
  by (induction rule: reachable.induct) (simp_all add: inv_init inv_step)

lemma reachable_run: "reachable s \<Longrightarrow> reachable (run es s)"
  by (induction es arbitrary: s) (simp_all add: reachable_step)

lemma ticks_countdown:
  "countdown s = Some (length vs) \<Longrightarrow> vs \<noteq> [] \<Longrightarrow>
     ticks vs s = tick (last vs) (s\<lparr>countdown := Some 1\<rparr>)"
proof (induction vs arbitrary: s)
  case Nil
  then show ?case by simp
next
  case (Cons v vs)
  show ?case
  proof (cases "vs = []")
    case True
    with Cons.prems have "s\<lparr>countdown := Some 1\<rparr> = s" by (cases s) simp
    with True show ?thesis by simp
  next
    case False
    then have l: "1 < Suc (length vs)" by (cases vs) auto
    from Cons.prems l have t: "tick v s = s\<lparr>countdown := Some (length vs)\<rparr>"
      by (simp add: tick_def)
    have "ticks (v # vs) s = ticks vs (s\<lparr>countdown := Some (length vs)\<rparr>)"
      by (simp add: t)
    also have "\<dots> = tick (last vs) (s\<lparr>countdown := Some (length vs), countdown := Some 1\<rparr>)"
      using Cons.IH[of "s\<lparr>countdown := Some (length vs)\<rparr>"] False by simp
    finally show ?thesis using False by simp
  qed
qed

lemma full_countdown:
  assumes "countdown s = None" "d = length vs" "vs \<noteq> []"
  shows "ticks vs (startCountdown None d s) = capturePhoto (last vs) s"
proof -
  let ?s = "startCountdown None d s"
  have c: "countdown ?s = Some (length vs)" using assms by (simp add: startCountdown_def)
  have "ticks vs ?s = tick (last vs) (?s\<lparr>countdown := Some 1\<rparr>)"
    by (rule ticks_countdown[OF c assms(3)])
  also have "\<dots> = capturePhoto (last vs) s"
    using assms(1) by (cases "last vs") (auto simp: tick_def startCountdown_def capturePhoto_def)
  finally show ?thesis .
qed

lemma capturePhoto_at_most_one:
  "photos (capturePhoto v s) = photos s \<or> (\<exists>p. photos (capturePhoto v s) = photos s @ [p])"
  by (auto simp: capturePhoto_def split: option.splits)

lemma complete_no_countdown:
  "reachable s \<Longrightarrow> length (photos s) = requiredPhotos s \<Longrightarrow>
     countdown s = None \<and> intervals s = 0 \<and> mode s = Camera"
  using reachable_inv[of s] inv_required_pos[of s]
  by (auto simp: capture_inv_def split: option.splits)

lemma run_timer_events:
  "mode s = Camera \<Longrightarrow> 0 < intervals s \<Longrightarrow> countdown s = Some (length vids) \<Longrightarrow> vids \<noteq> [] \<Longrightarrow>
     run (map IntervalFires vids) s = ticks (map Some vids) s"
proof (induction vids arbitrary: s)
  case Nil
  then show ?case by simp
next
  case (Cons vid vids)
  show ?case
  proof (cases "vids = []")
    case True
    with Cons.prems show ?thesis by (simp add: step_def)
  next
    case False
    then have l: "1 < Suc (length vids)" by (cases vids) auto
    let ?s' = "s\<lparr>countdown := Some (length vids)\<rparr>"
    from Cons.prems l have t: "tick (Some vid) s = ?s'" by (simp add: tick_def)
    from Cons.prems t have st: "step (IntervalFires vid) s = ?s'" by (simp add: step_def)
    have "run (map IntervalFires vids) ?s' = ticks (map Some vids) ?s'"
      using Cons.prems False by (intro Cons.IH) simp_all
    then show ?thesis by (simp add: st t)
  qed
qed

lemma click_countdown:
  assumes "takePhotoEnabled s" "timerDuration s = length vids" "vids \<noteq> []"
  shows "run (ClickTakePhoto # map IntervalFires vids) s = capturePhoto (Some (last vids)) s"
proof -
  from assms(1) have n: "countdown s = None" and m: "mode s = Camera"
    by (simp_all add: takePhotoEnabled_def takePhotoShown_def)
  let ?s' = "startCountdown None (length vids) s"
  have c: "step ClickTakePhoto s = ?s'" using assms(1,2) n by (simp add: step_def)
  have "run (map IntervalFires vids) ?s' = ticks (map Some vids) ?s'"
    using m assms(3) by (intro run_timer_events) (simp_all add: startCountdown_def)
  also have "\<dots> = capturePhoto (last (map Some vids)) s"
    using n assms(3) by (intro full_countdown) simp_all
  also have "last (map Some vids) = Some (last vids)" using assms(3) by (rule last_map)
  finally show ?thesis by (simp add: c)
qed

lemma reachable_intervals: "reachable s \<Longrightarrow> intervals s \<le> 1"
  using reachable_inv[of s] by (auto simp: capture_inv_def split: option.splits)

text \<open>
  C5: starting a countdown is a no-op while another countdown is active: the handler
  returns at once when the countdown it holds is not null, and while a countdown runs a
  click on Take Photo (disabled then) changes nothing. At most one photo is captured per
  completed countdown: the click and the timer events of one countdown, as many as the
  timer duration, amount to exactly one call of \<open>capturePhoto\<close>, made by the last of
  them, and that call adds at most one photo; no more than one interval is ever live. A
  capture is rejected, the photos left unchanged, whenever the set is complete at the
  moment a countdown would start or fire: on a set that is not incomplete a click on Take
  Photo (not rendered then) changes nothing, and on every state the program can reach
  the set never exceeds the required number, a countdown is active only on an incomplete
  set, and on a complete set no countdown and no interval is live, so that neither a click
  nor a timer event changes the state.
\<close>

theorem C5_countdown_capture:
  "(closure \<noteq> None \<longrightarrow> startCountdown closure d s = s)
   \<and> (countdown s \<noteq> None \<longrightarrow> step ClickTakePhoto s = s)
   \<and> (countdown s = None \<and> d = length vs \<and> vs \<noteq> [] \<longrightarrow>
        ticks vs (startCountdown None d s) = capturePhoto (last vs) s)
   \<and> (takePhotoEnabled s \<and> timerDuration s = length vids \<and> vids \<noteq> [] \<longrightarrow>
        run (ClickTakePhoto # map IntervalFires vids) s = capturePhoto (Some (last vids)) s)
   \<and> (photos (capturePhoto v s) = photos s
        \<or> (\<exists>p. photos (capturePhoto v s) = photos s @ [p]))
   \<and> (\<not> length (photos s) < requiredPhotos s \<longrightarrow>
        \<not> takePhotoShown s \<and> step ClickTakePhoto s = s)
   \<and> (reachable s \<longrightarrow>
        length (photos s) \<le> requiredPhotos s
        \<and> intervals s \<le> 1
        \<and> (countdown s \<noteq> None \<longrightarrow> length (photos s) < requiredPhotos s)
        \<and> (length (photos s) = requiredPhotos s \<longrightarrow>
             countdown s = None \<and> intervals s = 0
             \<and> step ClickTakePhoto s = s \<and> step (IntervalFires vid) s = s))"
proof -
  have a: "closure \<noteq> None \<longrightarrow> startCountdown closure d s = s"
    by (simp add: startCountdown_def)
  have a': "countdown s \<noteq> None \<longrightarrow> step ClickTakePhoto s = s"
    by (simp add: step_def takePhotoEnabled_def)
  have b: "countdown s = None \<and> d = length vs \<and> vs \<noteq> [] \<longrightarrow>
        ticks vs (startCountdown None d s) = capturePhoto (last vs) s"
    using full_countdown by blast
  have b': "takePhotoEnabled s \<and> timerDuration s = length vids \<and> vids \<noteq> [] \<longrightarrow>
        run (ClickTakePhoto # map IntervalFires vids) s = capturePhoto (Some (last vids)) s"
    using click_countdown by blast
  have c: "photos (capturePhoto v s) = photos s
        \<or> (\<exists>p. photos (capturePhoto v s) = photos s @ [p])"
    by (rule capturePhoto_at_most_one)
  have d: "\<not> length (photos s) < requiredPhotos s \<longrightarrow>
        \<not> takePhotoShown s \<and> step ClickTakePhoto s = s"
    by (simp add: step_def takePhotoEnabled_def takePhotoShown_def)
  have e: "reachable s \<longrightarrow>
        length (photos s) \<le> requiredPhotos s
        \<and> intervals s \<le> 1
        \<and> (countdown s \<noteq> None \<longrightarrow> length (photos s) < requiredPhotos s)
        \<and> (length (photos s) = requiredPhotos s \<longrightarrow>
             countdown s = None \<and> intervals s = 0
             \<and> step ClickTakePhoto s = s \<and> step (IntervalFires vid) s = s)"
  proof
    assume r: "reachable s"
    from reachable_inv[OF r] have 1: "length (photos s) \<le> requiredPhotos s"
      and 2: "countdown s \<noteq> None \<longrightarrow> length (photos s) < requiredPhotos s"
      by (auto simp: capture_inv_def split: option.splits)
    have 3: "length (photos s) = requiredPhotos s \<longrightarrow>
             countdown s = None \<and> intervals s = 0
             \<and> step ClickTakePhoto s = s \<and> step (IntervalFires vid) s = s"
      using complete_no_countdown[OF r] d by (simp add: step_def)
    from 1 2 3 reachable_intervals[OF r]
    show "length (photos s) \<le> requiredPhotos s
        \<and> intervals s \<le> 1
        \<and> (countdown s \<noteq> None \<longrightarrow> length (photos s) < requiredPhotos s)
        \<and> (length (photos s) = requiredPhotos s \<longrightarrow>
             countdown s = None \<and> intervals s = 0
             \<and> step ClickTakePhoto s = s \<and> step (IntervalFires vid) s = s)"
      by blast
  qed
  from a a' b b' c d e show ?thesis by blast
qed

lemmas capture_eval =
  step_def tick_def capturePhoto_def startCountdown_def takePhotoEnabled_def
  takePhotoShown_def requiredPhotos_def initial_state_def STRIP_LAYOUTS_def png_data_url_def
  deleteShown_def deletePhoto_def

theorem C5_countdown_capture_witness:
  "startCountdown (Some 3) 3 (run [CameraGranted, VideoLoaded, ClickTakePhoto] initial_state)
     = run [CameraGranted, VideoLoaded, ClickTakePhoto] initial_state
   \<and> step ClickTakePhoto (run [CameraGranted, VideoLoaded, ClickTakePhoto] initial_state)
     = run [CameraGranted, VideoLoaded, ClickTakePhoto] initial_state
   \<and> length (photos (run [CameraGranted, VideoLoaded, ClickTakePhoto] initial_state)) < 3
   \<and> photos (ticks [Some \<lparr>hasContext = True, videoWidth = 640, frame = ''a''\<rparr>,
                     Some \<lparr>hasContext = True, videoWidth = 640, frame = ''b''\<rparr>,
                     Some \<lparr>hasContext = True, videoWidth = 640, frame = ''c''\<rparr>]
          (startCountdown None 3 (run [CameraGranted, VideoLoaded] initial_state)))
       = [png_data_url ''c'']
   \<and> photos (run [ClickTakePhoto,
                   IntervalFires \<lparr>hasContext = True, videoWidth = 640, frame = ''a''\<rparr>,
                   IntervalFires \<lparr>hasContext = True, videoWidth = 640, frame = ''b''\<rparr>,
                   IntervalFires \<lparr>hasContext = True, videoWidth = 640, frame = ''c''\<rparr>]
          (run [CameraGranted, VideoLoaded] initial_state))
       = [png_data_url ''c'']
   \<and> step ClickTakePhoto
        \<lparr>mode = Camera, selectedLayout = hd STRIP_LAYOUTS,
         photos = [png_data_url ''a'', png_data_url ''b'', png_data_url ''c''],
         countdown = None, timerDuration = 3, cameraReady = True, intervals = 0\<rparr>
       = \<lparr>mode = Camera, selectedLayout = hd STRIP_LAYOUTS,
          photos = [png_data_url ''a'', png_data_url ''b'', png_data_url ''c''],
          countdown = None, timerDuration = 3, cameraReady = True, intervals = 0\<rparr>
   \<and> step (IntervalFires \<lparr>hasContext = True, videoWidth = 640, frame = ''d''\<rparr>)
        \<lparr>mode = Camera, selectedLayout = hd STRIP_LAYOUTS,
         photos = [png_data_url ''a'', png_data_url ''b'', png_data_url ''c''],
         countdown = None, timerDuration = 3, cameraReady = True, intervals = 0\<rparr>
       = \<lparr>mode = Camera, selectedLayout = hd STRIP_LAYOUTS,
          photos = [png_data_url ''a'', png_data_url ''b'', png_data_url ''c''],
          countdown = None, timerDuration = 3, cameraReady = True, intervals = 0\<rparr>"
proof -
  let ?v = "\<lambda>f. \<lparr>hasContext = True, videoWidth = 640, frame = f\<rparr>"
  let ?s0 = "run [CameraGranted, VideoLoaded] initial_state"
  let ?s1 = "run [CameraGranted, VideoLoaded, ClickTakePhoto] initial_state"
  let ?vs = "[Some (?v ''a''), Some (?v ''b''), Some (?v ''c'')]"
  let ?vids = "[?v ''a'', ?v ''b'', ?v ''c'']"
  let ?es = "[CameraGranted, VideoLoaded,
       ClickTakePhoto, IntervalFires (?v ''a''), IntervalFires (?v ''a''), IntervalFires (?v ''a''),
       ClickTakePhoto, IntervalFires (?v ''b''), IntervalFires (?v ''b''), IntervalFires (?v ''b''),
       ClickTakePhoto, IntervalFires (?v ''c''), IntervalFires (?v ''c''), IntervalFires (?v ''c'')]"
  let ?s3 = "\<lparr>mode = Camera, selectedLayout = hd STRIP_LAYOUTS,
      photos = [png_data_url ''a'', png_data_url ''b'', png_data_url ''c''],
      countdown = None, timerDuration = 3, cameraReady = True, intervals = 0\<rparr>"
  have r1: "reachable ?s1" by (rule reachable_run[OF reachable_init])
  have c1: "countdown ?s1 \<noteq> None" by (simp add: capture_eval)
  have q1: "requiredPhotos ?s1 = 3" by (simp add: capture_eval)
  have c0: "countdown ?s0 = None \<and> 3 = length ?vs \<and> ?vs \<noteq> []"
    by (simp add: capture_eval)
  have e0: "takePhotoEnabled ?s0 \<and> timerDuration ?s0 = length ?vids \<and> ?vids \<noteq> []"
    by (simp add: capture_eval)
  have v3: "run ?es initial_state = ?s3" by (simp add: capture_eval)
  have "reachable (run ?es initial_state)" by (rule reachable_run[OF reachable_init])
  then have r3: "reachable ?s3" by (simp only: v3)
  have q3: "length (photos ?s3) = requiredPhotos ?s3"
    by (simp add: requiredPhotos_def STRIP_LAYOUTS_def)
  have n: "startCountdown (Some 3) 3 ?s1 = ?s1"
    using C5_countdown_capture[where closure = "Some 3" and d = 3 and s = ?s1] by blast
  have n': "step ClickTakePhoto ?s1 = ?s1"
    using C5_countdown_capture[where s = ?s1] c1 by blast
  have l: "length (photos ?s1) < 3"
    using C5_countdown_capture[where s = ?s1] r1 c1 q1 by simp
  have "ticks ?vs (startCountdown None 3 ?s0) = capturePhoto (last ?vs) ?s0"
    using C5_countdown_capture[where s = ?s0 and vs = ?vs and d = 3] c0 by blast
  then have t: "photos (ticks ?vs (startCountdown None 3 ?s0)) = [png_data_url ''c'']"
    by (simp add: capture_eval)
  have "run (ClickTakePhoto # map IntervalFires ?vids) ?s0 = capturePhoto (Some (last ?vids)) ?s0"
    using C5_countdown_capture[where s = ?s0 and vids = ?vids] e0 by blast
  then have t': "photos (run [ClickTakePhoto, IntervalFires (?v ''a''), IntervalFires (?v ''b''),
        IntervalFires (?v ''c'')] ?s0) = [png_data_url ''c'']"
    by (simp add: capture_eval)
  have k: "step ClickTakePhoto ?s3 = ?s3"
    using C5_countdown_capture[where s = ?s3] q3 by simp
  have f: "step (IntervalFires (?v ''d'')) ?s3 = ?s3"
    using C5_countdown_capture[where s = ?s3 and vid = "?v ''d''"] r3 q3 by blast
  from n n' l t t' k f show ?thesis by blast
qed

text \<open>
  C9: for every photo list and every in-range index \<open>i\<close>, \<open>deletePhoto(i)\<close> removes
  exactly the element at index \<open>i\<close> (the entries before it keep their place, the
  entries after it move down by one, in order) and the list is one shorter; so after
  deleting one frame from a complete set the set is incomplete, and on a reachable
  complete set, where the Take Photo control was not shown, the delete button is there,
  the control is shown again, and with the camera ready a click on it starts a countdown.
\<close>

theorem C9_deletePhoto:
  "i < length (photos s) \<Longrightarrow>
     deletePhoto i s = s\<lparr>photos := take i (photos s) @ drop (Suc i) (photos s)\<rparr>
   \<and> length (photos (deletePhoto i s)) = length (photos s) - 1
   \<and> (\<forall>j. j < i \<longrightarrow> photos (deletePhoto i s) ! j = photos s ! j)
   \<and> (\<forall>j. i \<le> j \<and> Suc j < length (photos s) \<longrightarrow>
          photos (deletePhoto i s) ! j = photos s ! Suc j)
   \<and> (length (photos s) = requiredPhotos s \<longrightarrow>
          length (photos (deletePhoto i s)) < requiredPhotos (deletePhoto i s))
   \<and> (reachable s \<and> length (photos s) = requiredPhotos s \<longrightarrow>
          \<not> takePhotoShown s
          \<and> step (ClickDelete i) s = deletePhoto i s
          \<and> takePhotoShown (deletePhoto i s)
          \<and> (cameraReady s \<longrightarrow>
                takePhotoEnabled (deletePhoto i s)
                \<and> countdown (step ClickTakePhoto (deletePhoto i s)) = Some (timerDuration s)))"
proof -
  assume i: "i < length (photos s)"
  let ?d = "deletePhoto i s"
  have p: "photos ?d = take i (photos s) @ drop (Suc i) (photos s)"
    by (simp add: deletePhoto_def deletePhoto_list_take_drop)
  have a: "?d = s\<lparr>photos := take i (photos s) @ drop (Suc i) (photos s)\<rparr>"
    by (simp add: deletePhoto_def deletePhoto_list_take_drop)
  have b: "length (photos ?d) = length (photos s) - 1"
    using i by (simp add: p)
  have c: "\<forall>j. j < i \<longrightarrow> photos ?d ! j = photos s ! j"
    using i by (simp add: p nth_append)
  have d: "\<forall>j. i \<le> j \<and> Suc j < length (photos s) \<longrightarrow> photos ?d ! j = photos s ! Suc j"
  proof (intro allI impI)
    fix j assume j: "i \<le> j \<and> Suc j < length (photos s)"
    then have "photos ?d ! j = drop (Suc i) (photos s) ! (j - i)"
      using i by (simp add: p nth_append min_def)
    also have "\<dots> = photos s ! (Suc i + (j - i))"
      using j by (intro nth_drop) simp
    finally show "photos ?d ! j = photos s ! Suc j" using j by simp
  qed
  have q: "requiredPhotos ?d = requiredPhotos s"
    by (simp add: deletePhoto_def requiredPhotos_def)
  have e: "length (photos s) = requiredPhotos s \<longrightarrow> length (photos ?d) < requiredPhotos ?d"
    using i b q by simp
  have f: "reachable s \<and> length (photos s) = requiredPhotos s \<longrightarrow>
          \<not> takePhotoShown s
          \<and> step (ClickDelete i) s = ?d
          \<and> takePhotoShown ?d
          \<and> (cameraReady s \<longrightarrow>
                takePhotoEnabled ?d
                \<and> countdown (step ClickTakePhoto ?d) = Some (timerDuration s))"
  proof
    assume h: "reachable s \<and> length (photos s) = requiredPhotos s"
    then have n: "countdown s = None" "mode s = Camera"
      using complete_no_countdown[of s] by simp_all
    from h reachable_inv[of s] have ne: "[] \<notin> set (photos s)" by (simp add: capture_inv_def)
    with i have nz: "photos s ! i \<noteq> []" by (metis nth_mem)
    have 1: "\<not> takePhotoShown s" using h by (simp add: takePhotoShown_def)
    have 2: "step (ClickDelete i) s = ?d"
      using h i n nz by (simp add: step_def deleteShown_def)
    have 3: "takePhotoShown ?d"
      using h i b n by (simp add: takePhotoShown_def q) (simp add: deletePhoto_def)
    have 4: "cameraReady s \<longrightarrow> takePhotoEnabled ?d
                \<and> countdown (step ClickTakePhoto ?d) = Some (timerDuration s)"
      using 3 n by (simp add: takePhotoEnabled_def step_def startCountdown_def)
                   (simp add: deletePhoto_def)
    from 1 2 3 4 show "\<not> takePhotoShown s
          \<and> step (ClickDelete i) s = ?d
          \<and> takePhotoShown ?d
          \<and> (cameraReady s \<longrightarrow>
                takePhotoEnabled ?d
                \<and> countdown (step ClickTakePhoto ?d) = Some (timerDuration s))" by blast
  qed
  from a b c d e f show ?thesis by blast
qed

theorem C9_deletePhoto_witness:
  "photos (deletePhoto 1 (run
      [CameraGranted, VideoLoaded,
       ClickTakePhoto, IntervalFires \<lparr>hasContext = True, videoWidth = 640, frame = ''a''\<rparr>,
       IntervalFires \<lparr>hasContext = True, videoWidth = 640, frame = ''a''\<rparr>,
       IntervalFires \<lparr>hasContext = True, videoWidth = 640, frame = ''a''\<rparr>,
       ClickTakePhoto, IntervalFires \<lparr>hasContext = True, videoWidth = 640, frame = ''b''\<rparr>,
       IntervalFires \<lparr>hasContext = True, videoWidth = 640, frame = ''b''\<rparr>,
       IntervalFires \<lparr>hasContext = True, videoWidth = 640, frame = ''b''\<rparr>,
       ClickTakePhoto, IntervalFires \<lparr>hasContext = True, videoWidth = 640, frame = ''c''\<rparr>,
       IntervalFires \<lparr>hasContext = True, videoWidth = 640, frame = ''c''\<rparr>,
       IntervalFires \<lparr>hasContext = True, videoWidth = 640, frame = ''c''\<rparr>] initial_state))
     = [png_data_url ''a'', png_data_url ''c'']
   \<and> takePhotoEnabled (deletePhoto 1 (run
      [CameraGranted, VideoLoaded,
       ClickTakePhoto, IntervalFires \<lparr>hasContext = True, videoWidth = 640, frame = ''a''\<rparr>,
       IntervalFires \<lparr>hasContext = True, videoWidth = 640, frame = ''a''\<rparr>,
       IntervalFires \<lparr>hasContext = True, videoWidth = 640, frame = ''a''\<rparr>,
       ClickTakePhoto, IntervalFires \<lparr>hasContext = True, videoWidth = 640, frame = ''b''\<rparr>,
       IntervalFires \<lparr>hasContext = True, videoWidth = 640, frame = ''b''\<rparr>,
       IntervalFires \<lparr>hasContext = True, videoWidth = 640, frame = ''b''\<rparr>,
       ClickTakePhoto, IntervalFires \<lparr>hasContext = True, videoWidth = 640, frame = ''c''\<rparr>,
       IntervalFires \<lparr>hasContext = True, videoWidth = 640, frame = ''c''\<rparr>,
       IntervalFires \<lparr>hasContext = True, videoWidth = 640, frame = ''c''\<rparr>] initial_state))"
proof -
  let ?v = "\<lambda>f. \<lparr>hasContext = True, videoWidth = 640, frame = f\<rparr>"
  let ?es = "[CameraGranted, VideoLoaded,
       ClickTakePhoto, IntervalFires (?v ''a''), IntervalFires (?v ''a''), IntervalFires (?v ''a''),
       ClickTakePhoto, IntervalFires (?v ''b''), IntervalFires (?v ''b''), IntervalFires (?v ''b''),
       ClickTakePhoto, IntervalFires (?v ''c''), IntervalFires (?v ''c''), IntervalFires (?v ''c'')]"
  let ?s = "run ?es initial_state"
  have v: "?s = \<lparr>mode = Camera, selectedLayout = hd STRIP_LAYOUTS,
      photos = [png_data_url ''a'', png_data_url ''b'', png_data_url ''c''],
      countdown = None, timerDuration = 3, cameraReady = True, intervals = 0\<rparr>"
    by (simp add: capture_eval)
  have r: "reachable ?s" by (rule reachable_run[OF reachable_init])
  have i: "1 < length (photos ?s)" by (simp only: v) simp
  have c: "length (photos ?s) = requiredPhotos ?s"
    by (simp only: v) (simp add: requiredPhotos_def STRIP_LAYOUTS_def)
  have k: "cameraReady ?s" by (simp only: v) simp
  from C9_deletePhoto[OF i] r c k
  have "deletePhoto 1 ?s = ?s\<lparr>photos := take 1 (photos ?s) @ drop (Suc 1) (photos ?s)\<rparr>"
    and "takePhotoEnabled (deletePhoto 1 ?s)" by blast+
  then show ?thesis by (simp only: v) simp
qed


subsection \<open>Upload path\<close>

lemma processFile_nonempty: "processFile f \<noteq> [] \<longleftrightarrow> decodes f"
  by (auto simp: processFile_def decodes_def png_data_url_def
      split: reader_outcome.splits image_outcome.splits canvas_outcome.splits)

lemma filter_processed:
  "filter (\<lambda>p. p \<noteq> []) (map processFile fs) = map processFile (filter decodes fs)"
  by (induction fs) (simp_all add: processFile_nonempty)

lemma length_filter_all: "length (filter P xs) = length xs \<longleftrightarrow> (\<forall>x \<in> set xs. P x)"
  by (metis filter_id_conv length_filter_less less_irrefl)

lemma forwarded_simps [simp]:
  "forwarded [] = []"
  "forwarded (ToastError m # es) = forwarded es"
  "forwarded (ToastInfo m # es) = forwarded es"
  "forwarded (ToastSuccess m # es) = forwarded es"
  "forwarded (ResetInput # es) = forwarded es"
  "forwarded (OnPhotosReady ps l # es) = (ps, l) # forwarded es"
  by (simp_all add: forwarded_def)

lemma error_toasts_simps [simp]:
  "error_toasts [] = []"
  "error_toasts (ToastError m # es) = m # error_toasts es"
  "error_toasts (ToastInfo m # es) = error_toasts es"
  "error_toasts (ToastSuccess m # es) = error_toasts es"
  "error_toasts (ResetInput # es) = error_toasts es"
  "error_toasts (OnPhotosReady ps l # es) = error_toasts es"
  by (simp_all add: error_toasts_def)

lemma forwarded_append: "forwarded (xs @ ys) = forwarded xs @ forwarded ys"
  by (simp add: forwarded_def)

lemma error_toasts_append: "error_toasts (xs @ ys) = error_toasts xs @ error_toasts ys"
  by (simp add: error_toasts_def)

lemma forwarded_resetInput [simp]: "forwarded (resetInput m) = []"
  by (simp add: resetInput_def)

lemma error_toasts_resetInput [simp]: "error_toasts (resetInput m) = []"
  by (simp add: resetInput_def)

lemma upload_accepted:
  assumes "files \<noteq> []" "length files = required" "list_all isImageFile files"
    "list_all decodes files"
  shows "handleFileUpload required layoutId m files =
           ToastInfo ''Processing images...'' # resetInput m
             @ [OnPhotosReady (map processFile files) layoutId,
                ToastSuccess ''Photos uploaded successfully!'']"
proof -
  have v: "filter isImageFile files = files" using assms(3) by (simp add: list_all_iff)
  have d: "filter decodes files = files" using assms(4) by (simp add: list_all_iff)
  from assms(1,2) have "0 < required" by auto
  then show ?thesis
    using assms(1,2) by (simp add: handleFileUpload_def v filter_processed d)
qed

lemma upload_wrong_size:
  assumes "files \<noteq> []" "length files \<noteq> required"
  shows "handleFileUpload required layoutId m files =
           ToastError (''Please select exactly '' @ decimal required @ '' photos'')
             # resetInput m"
  using assms by (simp add: handleFileUpload_def)

lemma upload_not_images:
  assumes "files \<noteq> []" "length files = required" "\<not> list_all isImageFile files"
  shows "handleFileUpload required layoutId m files =
           ToastError ''Please select only image files'' # resetInput m"
proof -
  have "length (filter isImageFile files) \<noteq> length files"
    using assms(3) by (simp add: length_filter_all list_all_iff)
  moreover from assms(1,2) have "0 < required" by auto
  ultimately show ?thesis using assms(1,2) by (simp add: handleFileUpload_def)
qed

lemma upload_decode_failed:
  assumes "files \<noteq> []" "length files = required" "list_all isImageFile files"
    "\<not> list_all decodes files"
  shows "handleFileUpload required layoutId m files =
           ToastInfo ''Processing images...'' # resetInput m
             @ [ToastError (''Only '' @ decimal (length (filter decodes files)) @ '' of ''
                  @ decimal required @ '' photos loaded. Please try again.'')]"
proof -
  have v: "filter isImageFile files = files" using assms(3) by (simp add: list_all_iff)
  have "length (filter decodes files) \<noteq> length files"
    using assms(4) by (simp add: length_filter_all list_all_iff)
  moreover from assms(1,2) have "0 < required" by auto
  ultimately show ?thesis
    using assms(1,2) by (simp add: handleFileUpload_def v filter_processed)
qed

text \<open>
  C3: for every non-empty batch given to \<open>handleFileUpload\<close>, photos are forwarded to
  \<open>onPhotosReady\<close> if and only if the batch size equals the required photo count,
  every file passes the image check (MIME type starting with \<open>image/\<close>, or a
  recognised image extension) and every file decodes; then all of them are forwarded, in
  order, in one call, and no error is shown. In every other case nothing is forwarded
  (no partial acceptance) and exactly one error toast is shown; when only decoding
  failed, the toast carries the number of images that did decode.
\<close>

theorem C3_upload_all_or_nothing:
  "files \<noteq> [] \<Longrightarrow>
     (forwarded (handleFileUpload required layoutId m files) \<noteq> []
        \<longleftrightarrow> length files = required \<and> list_all isImageFile files \<and> list_all decodes files)
   \<and> (length files = required \<and> list_all isImageFile files \<and> list_all decodes files \<longrightarrow>
         forwarded (handleFileUpload required layoutId m files)
           = [(map processFile files, layoutId)]
         \<and> error_toasts (handleFileUpload required layoutId m files) = [])
   \<and> (\<not> (length files = required \<and> list_all isImageFile files \<and> list_all decodes files) \<longrightarrow>
         forwarded (handleFileUpload required layoutId m files) = []
         \<and> length (error_toasts (handleFileUpload required layoutId m files)) = 1)
   \<and> (length files = required \<and> list_all isImageFile files \<and> \<not> list_all decodes files \<longrightarrow>
         error_toasts (handleFileUpload required layoutId m files)
           = [''Only '' @ decimal (length (filter decodes files)) @ '' of ''
                @ decimal required @ '' photos loaded. Please try again.''])"
proof -
  assume ne: "files \<noteq> []"
  let ?h = "handleFileUpload required layoutId m files"
  let ?ok = "length files = required \<and> list_all isImageFile files \<and> list_all decodes files"
  have yes: "?ok \<longrightarrow> forwarded ?h = [(map processFile files, layoutId)] \<and> error_toasts ?h = []"
    using upload_accepted[OF ne, of required layoutId m]
    by (simp add: forwarded_append error_toasts_append)
  have dec: "length files = required \<and> list_all isImageFile files \<and> \<not> list_all decodes files \<longrightarrow>
      forwarded ?h = [] \<and>
      error_toasts ?h = [''Only '' @ decimal (length (filter decodes files)) @ '' of ''
                @ decimal required @ '' photos loaded. Please try again.'']"
    using upload_decode_failed[OF ne, of required layoutId m]
    by (simp add: forwarded_append error_toasts_append)
  have img: "length files = required \<and> \<not> list_all isImageFile files \<longrightarrow>
      forwarded ?h = [] \<and> length (error_toasts ?h) = 1"
    using upload_not_images[OF ne, of required layoutId m] by simp
  have size: "length files \<noteq> required \<longrightarrow> forwarded ?h = [] \<and> length (error_toasts ?h) = 1"
    using upload_wrong_size[OF ne, of required layoutId m] by simp
  have no: "\<not> ?ok \<longrightarrow> forwarded ?h = [] \<and> length (error_toasts ?h) = 1"
    using dec img size by auto
  have iff: "forwarded ?h \<noteq> [] \<longleftrightarrow> ?ok" using yes no by auto
  from iff yes no dec show ?thesis by blast
qed

theorem C3_upload_all_or_nothing_witness:
  "forwarded (handleFileUpload 3 ''strip-3'' True
      [\<lparr>file_type = ''image/jpeg'', file_name = ''a.jpg'',
         file_read = ReaderLoad ''data:image/jpeg;base64,AA'' (ImageLoad (Drawn ''QQ''))\<rparr>,
       \<lparr>file_type = [], file_name = ''IMG_2.HEIC'',
         file_read = ReaderLoad ''data:;base64,BB'' (ImageLoad NoContext)\<rparr>,
       \<lparr>file_type = ''image/png'', file_name = ''c'',
         file_read = ReaderLoad ''data:image/png;base64,CC'' (ImageLoad (Drawn ''RR''))\<rparr>])
     = [([png_data_url ''QQ'', ''data:;base64,BB'', png_data_url ''RR''], ''strip-3'')]
   \<and> error_toasts (handleFileUpload 3 ''strip-3'' True
      [\<lparr>file_type = ''image/jpeg'', file_name = ''a.jpg'',
         file_read = ReaderLoad ''data:image/jpeg;base64,AA'' (ImageLoad (Drawn ''QQ''))\<rparr>,
       \<lparr>file_type = [], file_name = ''IMG_2.HEIC'', file_read = ReaderError\<rparr>,
       \<lparr>file_type = ''image/png'', file_name = ''c'',
         file_read = ReaderLoad ''data:image/png;base64,CC'' ImageError\<rparr>])
     = [''Only 1 of 3 photos loaded. Please try again.'']
   \<and> forwarded (handleFileUpload 3 ''strip-3'' True
      [\<lparr>file_type = ''image/jpeg'', file_name = ''a.jpg'',
         file_read = ReaderLoad ''data:image/jpeg;base64,AA'' (ImageLoad (Drawn ''QQ''))\<rparr>,
       \<lparr>file_type = ''text/plain'', file_name = ''notes.txt'',
         file_read = ReaderLoad ''data:text/plain;base64,BB'' ImageError\<rparr>,
       \<lparr>file_type = ''image/png'', file_name = ''c'',
         file_read = ReaderLoad ''data:image/png;base64,CC'' (ImageLoad (Drawn ''RR''))\<rparr>])
     = []"
proof -
  let ?a = "\<lparr>file_type = ''image/jpeg'', file_name = ''a.jpg'',
         file_read = ReaderLoad ''data:image/jpeg;base64,AA'' (ImageLoad (Drawn ''QQ''))\<rparr>"
  let ?b = "\<lparr>file_type = [], file_name = ''IMG_2.HEIC'',
         file_read = ReaderLoad ''data:;base64,BB'' (ImageLoad NoContext)\<rparr>"
  let ?c = "\<lparr>file_type = ''image/png'', file_name = ''c'',
         file_read = ReaderLoad ''data:image/png;base64,CC'' (ImageLoad (Drawn ''RR''))\<rparr>"
  let ?b' = "\<lparr>file_type = [], file_name = ''IMG_2.HEIC'', file_read = ReaderError\<rparr>"
  let ?c' = "\<lparr>file_type = ''image/png'', file_name = ''c'',
         file_read = ReaderLoad ''data:image/png;base64,CC'' ImageError\<rparr>"
  let ?t = "\<lparr>file_type = ''text/plain'', file_name = ''notes.txt'',
         file_read = ReaderLoad ''data:text/plain;base64,BB'' ImageError\<rparr>"
  have ia: "isImageFile ?a" and ic: "isImageFile ?c" and ic': "isImageFile ?c'"
    by (simp_all add: isImageFile_def starts_with_def)
  have ib: "isImageFile ?b" and ib': "isImageFile ?b'"
    by (simp_all add: isImageFile_def starts_with_def ends_with_def image_extensions_def
        lower_ascii_def)
  have it: "\<not> isImageFile ?t"
    by (simp add: isImageFile_def starts_with_def ends_with_def image_extensions_def
        lower_ascii_def)
  have d: "decodes ?a" "decodes ?b" "decodes ?c" "\<not> decodes ?b'" "\<not> decodes ?c'"
    by (simp_all add: decodes_def)
  have 1: "forwarded (handleFileUpload 3 ''strip-3'' True [?a, ?b, ?c])
      = [(map processFile [?a, ?b, ?c], ''strip-3'')]"
    using C3_upload_all_or_nothing[of "[?a, ?b, ?c]" 3 "''strip-3''" True] ia ib ic d
    by simp
  have 2: "error_toasts (handleFileUpload 3 ''strip-3'' True [?a, ?b', ?c'])
      = [''Only '' @ decimal (length (filter decodes [?a, ?b', ?c'])) @ '' of ''
                @ decimal 3 @ '' photos loaded. Please try again.'']"
    using C3_upload_all_or_nothing[of "[?a, ?b', ?c']" 3 "''strip-3''" True] ia ib' ic' d
    by simp
  have 3: "forwarded (handleFileUpload 3 ''strip-3'' True [?a, ?t, ?c]) = []"
    using C3_upload_all_or_nothing[of "[?a, ?t, ?c]" 3 "''strip-3''" True] it
    by simp
  have p: "map processFile [?a, ?b, ?c] = [png_data_url ''QQ'', ''data:;base64,BB'', png_data_url ''RR'']"
    by (simp add: processFile_def)
  have q: "decimal (length (filter decodes [?a, ?b', ?c'])) = ''1''" "decimal 3 = ''3''"
    using d by (simp_all add: decimal.simps digit_char_def)
  from 1 2 3 show ?thesis by (simp only: p q) simp
qed



text \<open>
  C10: on an empty file list (the picker was cancelled) \<open>handleFileUpload\<close> returns at
  once and does nothing: no toast, no reset of the file input, no call of
  \<open>onPhotosReady\<close>, and (as in every branch of the handler) no change of the photo
  state. Every other batch of the wrong size gets the error toast
  \<open>Please select exactly N photos\<close>, followed by the reset of the input.
\<close>

theorem C10_empty_batch_silent:
  "handleFileUpload required layoutId m [] = []
   \<and> (files \<noteq> [] \<and> length files \<noteq> required \<longrightarrow>
        handleFileUpload required layoutId m files
          = ToastError (''Please select exactly '' @ decimal required @ '' photos'')
              # resetInput m
        \<and> error_toasts (handleFileUpload required layoutId m files) \<noteq> [])"
proof -
  have a: "handleFileUpload required layoutId m [] = []" by (simp add: handleFileUpload_def)
  have b: "files \<noteq> [] \<and> length files \<noteq> required \<longrightarrow>
        handleFileUpload required layoutId m files
          = ToastError (''Please select exactly '' @ decimal required @ '' photos'')
              # resetInput m
        \<and> error_toasts (handleFileUpload required layoutId m files) \<noteq> []"
    using upload_wrong_size[of files required layoutId m] by simp
  from a b show ?thesis by blast
qed

theorem C10_empty_batch_silent_witness:
  "handleFileUpload 4 ''grid-4'' True
      [\<lparr>file_type = ''image/png'', file_name = ''a.png'', file_read = ReaderError\<rparr>]
     = [ToastError ''Please select exactly 4 photos'', ResetInput]
   \<and> handleFileUpload 4 ''grid-4'' True [] = []"
proof -
  let ?a = "\<lparr>file_type = ''image/png'', file_name = ''a.png'', file_read = ReaderError\<rparr>"
  have h: "[?a] \<noteq> [] \<and> length [?a] \<noteq> (4::nat)" by simp
  have d: "decimal 4 = ''4''" by (simp add: decimal.simps digit_char_def)
  from C10_empty_batch_silent[of 4 "''grid-4''" True "[?a]"] h
  have "handleFileUpload 4 ''grid-4'' True [?a]
          = ToastError (''Please select exactly '' @ decimal 4 @ '' photos'') # resetInput True"
    and "handleFileUpload 4 ''grid-4'' True [] = []" by blast+
  then show ?thesis by (simp add: d resetInput_def)
qed


subsection \<open>Monochrome transform\<close>

lemma clamp_third:
  fixes q m :: nat
  assumes "m < 3" "3 * q + m \<le> 765"
  shows "ToUint8Clamp (Some (of_nat (3 * q + m) / 3)) = word_of_nat (if m = 2 then q + 1 else q)"
proof -
  let ?x = "(of_nat (3 * q + m) :: rat) / 3"
  have x: "?x = of_nat q + of_nat m / 3" by (simp add: field_simps)
  have x0: "0 \<le> ?x" by simp
  have "(of_nat (3 * q + m) :: rat) \<le> of_nat 765" using assms(2) by (subst of_nat_le_iff)
  then have x1: "?x \<le> 255" by simp
  have c: "min (max ?x 0) 255 = ?x" using x0 x1 by (simp add: min_def max_def)
  have "\<lfloor>?x\<rfloor> = int ((3 * q + m) div 3)"
    using floor_divide_of_nat_eq[of "3 * q + m" 3, where ?'a = rat] by simp
  then have f: "\<lfloor>?x\<rfloor> = int q" using assms(1) by simp
  consider "m = 0" | "m = 1" | "m = 2" using assms(1) by linarith
  then show ?thesis
  proof cases
    case 1
    have "?x < of_int (int q) + 1 / 2" unfolding x using 1 by simp
    then show ?thesis
      unfolding ToUint8Clamp_def option.case c Let_def f using 1 by simp
  next
    case 2
    have "?x < of_int (int q) + 1 / 2" unfolding x using 2 by simp
    then show ?thesis
      unfolding ToUint8Clamp_def option.case c Let_def f using 2 by simp
  next
    case 3
    have "of_int (int q) + 1 / 2 < ?x" unfolding x using 3 by simp
    then have "\<not> ?x < of_int (int q) + 1 / 2" by simp
    then show ?thesis
      unfolding ToUint8Clamp_def option.case c Let_def f
      using 3 \<open>of_int (int q) + 1 / 2 < ?x\<close> by simp
  qed
qed

lemma clamp_avg_nat:
  fixes a b c :: nat
  assumes "a + b + c \<le> 765"
  shows "ToUint8Clamp (Some ((of_nat a + of_nat b + of_nat c) / 3))
           = word_of_nat ((a + b + c + 1) div 3)"
proof -
  let ?s = "a + b + c"
  have s: "?s = 3 * (?s div 3) + ?s mod 3" by simp
  have m: "?s mod 3 < 3" by simp
  have le: "3 * (?s div 3) + ?s mod 3 \<le> 765" using assms by simp
  have r: "(if ?s mod 3 = 2 then ?s div 3 + 1 else ?s div 3) = (?s + 1) div 3" by presburger
  have "(of_nat a + of_nat b + of_nat c :: rat) = of_nat (3 * (?s div 3) + ?s mod 3)"
    by (simp only: of_nat_add[symmetric] s[symmetric])
  then show ?thesis
    using clamp_third[OF m le] by (simp only: r)
qed

lemma unat_le_255: "unat (v :: byte) \<le> 255"
  using unsigned_less[of v, where ?'a = nat] by simp

lemma avgByte_word:
  "avgByte r g b = word_of_nat ((unat r + unat g + unat b + 1) div 3)"
proof -
  have "unat r + unat g + unat b \<le> 765"
    using unat_le_255[of r] unat_le_255[of g] unat_le_255[of b] by simp
  from clamp_avg_nat[OF this] show ?thesis unfolding avgByte_def .
qed

lemma avgByte_unat: "unat (avgByte r g b) = (unat r + unat g + unat b + 1) div 3"
proof -
  have "unat r + unat g + unat b \<le> 765"
    using unat_le_255[of r] unat_le_255[of g] unat_le_255[of b] by simp
  then have "(unat r + unat g + unat b + 1) div 3 < 256" by simp
  then show ?thesis by (simp add: avgByte_word unat_of_nat)
qed

lemma avgByte_same: "avgByte v v v = v"
proof -
  have "(unat v + unat v + unat v + 1) div 3 = unat v" by simp
  then show ?thesis by (simp add: avgByte_word)
qed

lemma loop_refines:
  "grayscaleLoop (length pre) (pre @ suf) = pre @ grayPixels suf"
proof (induction suf arbitrary: pre rule: grayPixels.induct)
  case (1 r g b a rest)
  let ?v = "avgByte r g b"
  have "grayscaleLoop (length pre) (pre @ r # g # b # a # rest)
      = grayscaleLoop (length pre + 4) (pre @ ?v # ?v # ?v # a # rest)"
    by (subst grayscaleLoop.simps)
       (simp add: element_def average_def store_def avgByte_def nth_append list_update_append Let_def)
  also have "\<dots> = grayscaleLoop (length (pre @ [?v, ?v, ?v, a])) ((pre @ [?v, ?v, ?v, a]) @ rest)"
  proof -
    have l: "length (pre @ [?v, ?v, ?v, a]) = length pre + 4" by simp
    show ?thesis unfolding l by simp
  qed
  also have "\<dots> = (pre @ [?v, ?v, ?v, a]) @ grayPixels rest"
    by (rule "1.IH")
  finally show ?case by simp
next
  case (2 r g b)
  let ?v = "avgByte r g b"
  have "grayscaleLoop (length pre) (pre @ [r, g, b])
      = grayscaleLoop (length pre + 4) (pre @ [?v, ?v, ?v])"
    by (subst grayscaleLoop.simps)
       (simp add: element_def average_def store_def avgByte_def nth_append list_update_append Let_def)
  also have "\<dots> = pre @ [?v, ?v, ?v]"
    by (subst grayscaleLoop.simps) simp
  finally show ?case by simp
next
  case (3 r g)
  have "grayscaleLoop (length pre) (pre @ [r, g])
      = grayscaleLoop (length pre + 4) (pre @ [0, 0])"
    by (subst grayscaleLoop.simps)
       (simp add: element_def average_def store_def ToUint8Clamp_def nth_append list_update_append Let_def)
  also have "\<dots> = pre @ [0, 0]"
    by (subst grayscaleLoop.simps) simp
  finally show ?case by simp
next
  case (4 r)
  have "grayscaleLoop (length pre) (pre @ [r])
      = grayscaleLoop (length pre + 4) (pre @ [0])"
    by (subst grayscaleLoop.simps)
       (simp add: element_def average_def store_def ToUint8Clamp_def nth_append list_update_append Let_def)
  also have "\<dots> = pre @ [0]"
    by (subst grayscaleLoop.simps) simp
  finally show ?case by simp
next
  case 5
  show ?case by (subst grayscaleLoop.simps) simp
qed

lemma grayscale_grayPixels: "grayscale data = grayPixels data"
  using loop_refines[of "[]" data] by (simp add: grayscale_def)

lemma grayPixels_idem: "grayPixels (grayPixels xs) = grayPixels xs"
  by (induction xs rule: grayPixels.induct) (simp_all add: avgByte_same)

lemma length_grayPixels: "length (grayPixels xs) = length xs"
  by (induction xs rule: grayPixels.induct) simp_all

lemma grayPixels_pixels:
  "grayPixels (concat (map (\<lambda>(r, g, b, a). [r, g, b, a]) pixels))
     = concat (map (\<lambda>(r, g, b, a). [avgByte r g b, avgByte r g b, avgByte r g b, a]) pixels)"
  by (induction pixels) (auto split: prod.splits)

text \<open>
  C6: the monochrome pixel transform is idempotent: for every pixel buffer, applying it
  twice yields the same buffer as applying it once. The transform is the loop of the
  source; on a buffer of whole pixels it replaces R, G and B of each pixel by their
  average \<open>(R+G+B)/3\<close>, stored into the clamped 8-bit channel as the nearest integer
  \<open>(R+G+B+1) div 3\<close>, and leaves alpha and the length of the buffer untouched.
\<close>

theorem C6_monochrome_idempotent:
  "grayscale (grayscale data) = grayscale data
   \<and> length (grayscale data) = length data
   \<and> grayscale (concat (map (\<lambda>(r, g, b, a). [r, g, b, a]) pixels))
       = concat (map (\<lambda>(r, g, b, a). [avgByte r g b, avgByte r g b, avgByte r g b, a]) pixels)
   \<and> unat (avgByte r g b) = (unat r + unat g + unat b + 1) div 3
   \<and> avgByte v v v = v"
  by (simp add: grayscale_grayPixels grayPixels_idem length_grayPixels grayPixels_pixels
      avgByte_unat avgByte_same)

theorem C6_monochrome_idempotent_witness:
  "grayscale [10, 20, 30, 255, 1, 2, 5, 128] = [20, 20, 20, 255, 3, 3, 3, 128]
   \<and> grayscale [20, 20, 20, 255, 3, 3, 3, 128] = [20, 20, 20, 255, 3, 3, 3, 128]"
proof -
  have e: "grayscale [10, 20, 30, 255, 1, 2, 5, 128] = [20, 20, 20, 255, 3, 3, 3, 128]"
    using C6_monochrome_idempotent[of _ "[(10, 20, 30, 255), (1, 2, 5, 128)]"]
    by (simp add: avgByte_word)
  from C6_monochrome_idempotent[of "[10, 20, 30, 255, 1, 2, 5, 128]"] e
  show ?thesis by simp
qed

subsection \<open>Export\<close>

lemma download_in_flight:
  "isDownloadingRef refs \<Longrightarrow> downloadImage B dataUrl filename refs = (Inr False, refs, [])"
  by (simp add: downloadImage_def)

lemma download_resolves:
  "\<exists>b. fst (downloadImage B dataUrl filename refs) = Inr b"
  by (auto simp: downloadImage_def Let_def split: prod.splits sum.splits)

lemma download_result:
  "\<not> isDownloadingRef refs \<Longrightarrow>
     fst (downloadImage B dataUrl filename refs)
       = (case fst (download_try B dataUrl filename (refs\<lparr>isDownloadingRef := True\<rparr>)) of
            Inl e \<Rightarrow> Inr False
          | Inr b \<Rightarrow> Inr b)"
  by (auto simp: downloadImage_def Let_def split: prod.splits sum.splits)

lemma download_flag_cleared:
  "\<not> isDownloadingRef refs \<Longrightarrow>
     \<not> isDownloadingRef (fst (snd (downloadImage B dataUrl filename refs)))"
  by (auto simp: downloadImage_def Let_def split: prod.splits sum.splits)

lemma download_try_ok:
  "fst (download_try B dataUrl filename refs) = Inr True
     \<longleftrightarrow> list_all (\<lambda>c. throws B c = None) (calls_made B)"
  by (auto simp: download_try_def calls_made_def Let_def split: prod.splits option.splits)

lemma download_try_result:
  "fst (download_try B dataUrl filename refs) = Inr b \<Longrightarrow> b"
  by (auto simp: download_try_def Let_def split: prod.splits option.splits if_splits)

text \<open>
  C7: a call of \<open>downloadImage\<close> made while a previous invocation is in flight
  (\<open>isDownloadingRef\<close> set) returns false at once, with the refs unchanged and without
  any effect, so no download starts; and \<open>downloadImage\<close> never throws past its
  boundary: its promise always resolves with a boolean, true when every browser call of
  the \<open>try\<close> block went through and false when one of them threw. A call that was
  let in leaves the in-flight flag cleared.
\<close>

theorem C7_downloadImage_guard:
  "(isDownloadingRef refs \<longrightarrow>
      downloadImage B dataUrl filename refs = (Inr False, refs, []))
   \<and> (\<exists>b. fst (downloadImage B dataUrl filename refs) = Inr b)
   \<and> (\<not> isDownloadingRef refs \<longrightarrow>
        (fst (downloadImage B dataUrl filename refs) = Inr True
           \<longleftrightarrow> list_all (\<lambda>c. throws B c = None) (calls_made B))
        \<and> (fst (downloadImage B dataUrl filename refs) = Inr False
           \<longleftrightarrow> list_ex (\<lambda>c. throws B c \<noteq> None) (calls_made B))
        \<and> \<not> isDownloadingRef (fst (snd (downloadImage B dataUrl filename refs))))"
proof -
  have a: "isDownloadingRef refs \<longrightarrow>
      downloadImage B dataUrl filename refs = (Inr False, refs, [])"
    by (simp add: download_in_flight)
  have b: "\<exists>b. fst (downloadImage B dataUrl filename refs) = Inr b"
    by (rule download_resolves)
  have c: "\<not> isDownloadingRef refs \<longrightarrow>
        (fst (downloadImage B dataUrl filename refs) = Inr True
           \<longleftrightarrow> list_all (\<lambda>c. throws B c = None) (calls_made B))
        \<and> (fst (downloadImage B dataUrl filename refs) = Inr False
           \<longleftrightarrow> list_ex (\<lambda>c. throws B c \<noteq> None) (calls_made B))
        \<and> \<not> isDownloadingRef (fst (snd (downloadImage B dataUrl filename refs)))"
  proof
    assume n: "\<not> isDownloadingRef refs"
    let ?t = "fst (download_try B dataUrl filename (refs\<lparr>isDownloadingRef := True\<rparr>))"
    have t: "fst (downloadImage B dataUrl filename refs) = Inr True
           \<longleftrightarrow> list_all (\<lambda>c. throws B c = None) (calls_made B)"
      using download_result[OF n, of B dataUrl filename]
        download_try_ok[of B dataUrl filename "refs\<lparr>isDownloadingRef := True\<rparr>"]
      by (auto split: sum.splits)
    have f: "fst (downloadImage B dataUrl filename refs) = Inr False
           \<longleftrightarrow> list_ex (\<lambda>c. throws B c \<noteq> None) (calls_made B)"
      using t b by (auto simp: list_all_iff list_ex_iff)
    from t f download_flag_cleared[OF n]
    show "(fst (downloadImage B dataUrl filename refs) = Inr True
           \<longleftrightarrow> list_all (\<lambda>c. throws B c = None) (calls_made B))
        \<and> (fst (downloadImage B dataUrl filename refs) = Inr False
           \<longleftrightarrow> list_ex (\<lambda>c. throws B c \<noteq> None) (calls_made B))
        \<and> \<not> isDownloadingRef (fst (snd (downloadImage B dataUrl filename refs)))"
      by blast
  qed
  from a b c show ?thesis by blast
qed

theorem C7_downloadImage_guard_witness:
  "downloadImage \<lparr>throws = (\<lambda>c. None), objectUrl = ''blob:1'', isMedianWebView = False\<rparr>
      ''data:image/png;base64,AA'' ''love-booth-1.png''
      \<lparr>isDownloadingRef = True, objectUrlRef = None\<rparr>
     = (Inr False, \<lparr>isDownloadingRef = True, objectUrlRef = None\<rparr>, [])
   \<and> fst (downloadImage
        \<lparr>throws = (\<lambda>c. if c = DataUrlToBlob then Some (JsError ''InvalidCharacterError'') else None),
         objectUrl = ''blob:1'', isMedianWebView = False\<rparr>
        ''data:image/png;base64,!'' ''love-booth-1.png''
        \<lparr>isDownloadingRef = False, objectUrlRef = None\<rparr>) = Inr False
   \<and> fst (downloadImage \<lparr>throws = (\<lambda>c. None), objectUrl = ''blob:1'', isMedianWebView = True\<rparr>
        ''data:image/png;base64,AA'' ''love-booth-1.png''
        \<lparr>isDownloadingRef = False, objectUrlRef = None\<rparr>) = Inr True"
proof -
  let ?ok = "\<lparr>throws = (\<lambda>c. None), objectUrl = ''blob:1'', isMedianWebView = False\<rparr>"
  let ?okm = "\<lparr>throws = (\<lambda>c. None), objectUrl = ''blob:1'', isMedianWebView = True\<rparr>"
  let ?bad = "\<lparr>throws = (\<lambda>c. if c = DataUrlToBlob then Some (JsError ''InvalidCharacterError'') else None),
         objectUrl = ''blob:1'', isMedianWebView = False\<rparr>"
  let ?busy = "\<lparr>isDownloadingRef = True, objectUrlRef = None\<rparr>"
  let ?idle = "\<lparr>isDownloadingRef = False, objectUrlRef = None\<rparr>"
  have 1: "downloadImage ?ok ''data:image/png;base64,AA'' ''love-booth-1.png'' ?busy
      = (Inr False, ?busy, [])"
    using C7_downloadImage_guard[of ?busy ?ok] by simp
  have 2: "fst (downloadImage ?bad ''data:image/png;base64,!'' ''love-booth-1.png'' ?idle) = Inr False"
    using C7_downloadImage_guard[of ?idle ?bad "''data:image/png;base64,!''" "''love-booth-1.png''"]
    by (simp add: calls_made_def)
  have 3: "fst (downloadImage ?okm ''data:image/png;base64,AA'' ''love-booth-1.png'' ?idle) = Inr True"
    using C7_downloadImage_guard[of ?idle ?okm "''data:image/png;base64,AA''" "''love-booth-1.png''"]
    by (simp add: calls_made_def)
  from 1 2 3 show ?thesis by blast
qed


subsection \<open>Print pipeline: chunks, the write loop, the fallback\<close>

lemma concat_pieces:
  "concat (map (\<lambda>k. take m (drop (k * m) xs)) [0 ..< n]) = take (n * m) xs"
proof (induction n)
  case 0
  then show ?case by simp
next
  case (Suc n)
  have "take (n * m + m) xs = take (n * m) xs @ take m (drop (n * m) xs)"
    by (rule take_add)
  with Suc show ?case by (simp add: add.commute)
qed

lemma min_sub: "min ((k + 1) * m) n - k * m = min m (n - k * (m::nat))"
  by (auto simp: min_def)

lemma le_ceil:
  assumes "0 < (m::nat)"
  shows "n \<le> (n + m - 1) div m * m"
proof -
  have e: "(n + m - 1) div m * m + (n + m - 1) mod m = n + m - 1" by simp
  have r: "(n + m - 1) mod m < m" using assms by simp
  from e r show ?thesis by linarith
qed

lemma k_lt:
  assumes "0 < (m::nat)"
  shows "k * m < n \<longleftrightarrow> k < (n + m - 1) div m"
proof -
  have "k < (n + m - 1) div m \<longleftrightarrow> Suc k \<le> (n + m - 1) div m" by auto
  also have "\<dots> \<longleftrightarrow> Suc k * m \<le> n + m - 1"
    using assms by (rule less_eq_div_iff_mult_less_eq)
  also have "\<dots> \<longleftrightarrow> k * m < n" using assms by auto
  finally show ?thesis by simp
qed

lemma le_ceil_512: "n \<le> (n + 511) div 512 * (512::nat)"
  using le_ceil[of 512 n] by simp

lemma k_lt_512: "k * 512 < n \<longleftrightarrow> k < (n + 511) div (512::nat)"
  using k_lt[of 512 k n] by (simp add: add.commute)

lemma chunk_piece:
  "take (min ((k + 1) * 512) (length bytes) - k * 512) (drop (k * 512) bytes)
     = take 512 (drop (k * 512) (bytes :: byte list))"
proof -
  have h: "min ((k + 1) * 512) (length bytes) - k * 512 = min 512 (length (drop (k * 512) bytes))"
    using min_sub[of k 512 "length bytes"] by simp
  have t: "take (min a (length ys)) ys = take a ys" for a and ys :: "byte list"
    by (simp add: min_def)
  show ?thesis unfolding h by (rule t)
qed

lemma chunks_pieces:
  "chunks bytes = map (\<lambda>k. take 512 (drop (k * 512) bytes)) [0 ..< (length bytes + 511) div 512]"
  unfolding chunks_def by (simp only: chunk_piece)

lemma length_chunks: "length (chunks bytes) = (length bytes + 511) div 512"
  by (simp add: chunks_def)

lemma concat_chunks: "concat (chunks bytes) = bytes"
proof -
  have "length bytes \<le> (length bytes + 511) div 512 * 512" by (rule le_ceil_512)
  then show ?thesis by (simp add: chunks_pieces concat_pieces)
qed

lemma chunk_nth:
  "k < length (chunks bytes) \<Longrightarrow>
     chunks bytes ! k = take (min ((k + 1) * 512) (length bytes) - k * 512) (drop (k * 512) bytes)"
  by (simp add: chunks_def)

lemma chunk_length:
  assumes "k < length (chunks bytes)"
  shows "0 < length (chunks bytes ! k) \<and> length (chunks bytes ! k) \<le> 512"
proof -
  from assms have "k < (length bytes + 511) div 512" by (simp add: length_chunks)
  then have "k * 512 < length bytes" by (simp add: k_lt_512)
  then show ?thesis using assms by (simp add: chunks_pieces)
qed

lemma drop_chunks:
  assumes "k * 512 < length bytes"
  shows "drop k (chunks bytes) = take 512 (drop (k * 512) bytes) # drop (k + 1) (chunks bytes)"
proof -
  let ?n = "(length bytes + 511) div 512"
  from assms have k: "k < ?n" by (simp add: k_lt_512)
  have "drop k (chunks bytes) = map (\<lambda>k. take 512 (drop (k * 512) bytes)) [k ..< ?n]"
    by (simp add: chunks_pieces drop_map)
  also have "[k ..< ?n] = k # [Suc k ..< ?n]" using k by (rule upt_conv_Cons)
  finally show ?thesis by (simp add: chunks_pieces drop_map)
qed

lemma drop_chunks_end:
  assumes "\<not> k * 512 < length bytes"
  shows "drop k (chunks bytes) = []"
proof -
  from assms have "(length bytes + 511) div 512 \<le> k" by (simp add: k_lt_512)
  then show ?thesis by (simp add: length_chunks)
qed

lemma writeChunks_sendList:
  "writeChunks c bytes (k * chunkSize) = sendList c k (drop k (chunks bytes))"
proof (induction c bytes "k * chunkSize" arbitrary: k rule: writeChunks.induct)
  case (1 c bytes)
  show ?case
  proof (cases "k * 512 < length bytes")
    case True
    note d = drop_chunks[OF True]
    show ?thesis
    proof (cases "writeValue c k (take 512 (drop (k * 512) bytes))")
      case w: True
      have ih: "writeChunks c bytes (Suc k * chunkSize) = sendList c (Suc k) (drop (Suc k) (chunks bytes))"
        using "1.hyps"[of "take chunkSize (drop (k * chunkSize) bytes)" "Suc k"] True w
        by (simp add: chunkSize_def)
      have s: "k * chunkSize + chunkSize = Suc k * chunkSize" by simp
      show ?thesis
        by (subst writeChunks.simps, subst s, subst ih)
           (use True w in \<open>simp add: d chunkSize_def\<close>)
    next
      case w: False
      show ?thesis
        by (subst writeChunks.simps) (use True w in \<open>simp add: d chunkSize_def\<close>)
    qed
  next
    case False
    show ?thesis
      by (subst writeChunks.simps) (use False in \<open>simp add: drop_chunks_end chunkSize_def\<close>)
  qed
qed

lemma writeChunks_0: "writeChunks c bytes 0 = sendList c 0 (chunks bytes)"
  using writeChunks_sendList[of c bytes 0] by simp

lemma snd_sendList_Cons:
  "snd (sendList c k (ch # chs)) = (writeValue c k ch \<and> snd (sendList c (Suc k) chs))"
  by (simp add: case_prod_beta)

lemma fst_sendList_Cons:
  "fst (sendList c k (ch # chs)) =
     (if writeValue c k ch
      then WriteValue (char_uuid c) ch True # fst (sendList c (Suc k) chs)
      else [WriteValue (char_uuid c) ch False])"
  by (simp add: case_prod_beta)

lemma sendList_ok:
  "snd (sendList c k chs) \<longleftrightarrow> (\<forall>j < length chs. writeValue c (k + j) (chs ! j))"
proof (induction chs arbitrary: k)
  case Nil
  then show ?case by simp
next
  case (Cons ch chs)
  have "(\<forall>j < length (ch # chs). writeValue c (k + j) ((ch # chs) ! j))
      \<longleftrightarrow> writeValue c k ch \<and> (\<forall>j < length chs. writeValue c (Suc k + j) (chs ! j))"
    by (auto simp: less_Suc_eq_0_disj)
  then show ?case using Cons.IH[of "Suc k"] by (simp only: snd_sendList_Cons)
qed

lemma sendList_events_ok:
  "snd (sendList c k chs) \<Longrightarrow>
     fst (sendList c k chs) = map (\<lambda>ch. WriteValue (char_uuid c) ch True) chs"
proof (induction chs arbitrary: k)
  case Nil
  then show ?case by simp
next
  case (Cons ch chs)
  from Cons.prems have w: "writeValue c k ch" and r: "snd (sendList c (Suc k) chs)"
    by (simp_all only: snd_sendList_Cons)
  from Cons.IH[OF r] w show ?case by (simp only: fst_sendList_Cons) simp
qed

lemma sendList_events_failed:
  "\<not> snd (sendList c k chs) \<Longrightarrow>
     \<exists>j < length chs. (\<forall>i < j. writeValue c (k + i) (chs ! i)) \<and> \<not> writeValue c (k + j) (chs ! j)
       \<and> fst (sendList c k chs)
           = map (\<lambda>ch. WriteValue (char_uuid c) ch True) (take j chs)
               @ [WriteValue (char_uuid c) (chs ! j) False]"
proof (induction chs arbitrary: k)
  case Nil
  then show ?case by simp
next
  case (Cons ch chs)
  show ?case
  proof (cases "writeValue c k ch")
    case True
    with Cons.prems have "\<not> snd (sendList c (Suc k) chs)" by (simp only: snd_sendList_Cons) simp
    from Cons.IH[OF this] obtain j where j: "j < length chs"
      "\<forall>i < j. writeValue c (Suc k + i) (chs ! i)" "\<not> writeValue c (Suc k + j) (chs ! j)"
      "fst (sendList c (Suc k) chs)
           = map (\<lambda>ch. WriteValue (char_uuid c) ch True) (take j chs)
               @ [WriteValue (char_uuid c) (chs ! j) False]" by blast
    have a: "\<forall>i < Suc j. writeValue c (k + i) ((ch # chs) ! i)"
      using True j(2) by (auto simp: less_Suc_eq_0_disj)
    have b: "fst (sendList c k (ch # chs))
           = map (\<lambda>ch. WriteValue (char_uuid c) ch True) (take (Suc j) (ch # chs))
               @ [WriteValue (char_uuid c) ((ch # chs) ! Suc j) False]"
      using True j(4) by (simp only: fst_sendList_Cons) simp
    have c: "\<not> writeValue c (k + Suc j) ((ch # chs) ! Suc j)" using j(3) by simp
    have d: "Suc j < length (ch # chs)" using j(1) by simp
    from a b c d show ?thesis by blast
  next
    case False
    have "0 < length (ch # chs)" by simp
    moreover have "\<forall>i < (0::nat). writeValue c (k + i) ((ch # chs) ! i)" by simp
    moreover have "\<not> writeValue c (k + 0) ((ch # chs) ! 0)" using False by simp
    moreover have "fst (sendList c k (ch # chs))
           = map (\<lambda>ch. WriteValue (char_uuid c) ch True) (take 0 (ch # chs))
               @ [WriteValue (char_uuid c) ((ch # chs) ! 0) False]"
      using False by (simp only: fst_sendList_Cons) simp
    ultimately show ?thesis by blast
  qed
qed

lemma tryCharacteristics_find:
  "tryCharacteristics cs bytes =
     (case find writable cs of
        None \<Rightarrow> ([], Inr False)
      | Some c \<Rightarrow>
          (fst (sendList c 0 (chunks bytes)),
           if snd (sendList c 0 (chunks bytes)) then Inr True
           else Inl (JsError ''writeValue rejected'')))"
  by (induction cs) (simp_all add: writeChunks_0 case_prod_beta)

lemma sendList_writes: "list_all is_write (fst (sendList c k chs))"
  by (induction chs arbitrary: k) (simp_all add: fst_sendList_Cons is_write_def del: sendList.simps(2))

lemma tryCharacteristics_writes: "list_all is_write (fst (tryCharacteristics cs bytes))"
  by (simp add: tryCharacteristics_find sendList_writes split: option.splits)

lemma tryServices_Cons:
  "tryServices (s # ss) bytes =
     (if servicePrints bytes s
      then (fst (tryCharacteristics (the (getCharacteristics s)) bytes), True)
      else (case getCharacteristics s of
              None \<Rightarrow> tryServices ss bytes
            | Some cs \<Rightarrow> (fst (tryCharacteristics cs bytes) @ fst (tryServices ss bytes),
                          snd (tryServices ss bytes))))"
  by (simp add: servicePrints_def tryCharacteristics_find case_prod_beta
      split: option.splits)

lemma tryServices_writes: "list_all is_write (fst (tryServices ss bytes))"
proof (induction ss)
  case Nil
  then show ?case by simp
next
  case (Cons s ss)
  then show ?case
    by (simp only: tryServices_Cons) (simp add: tryCharacteristics_writes split: option.splits)
qed

lemma tryServices_printed: "snd (tryServices ss bytes) = list_ex (servicePrints bytes) ss"
proof (induction ss)
  case Nil
  then show ?case by simp
next
  case (Cons s ss)
  then show ?case
    by (simp only: tryServices_Cons) (simp split: option.splits)
qed

lemma tryServices_events:
  "snd (tryServices ss bytes) \<Longrightarrow>
     \<exists>s cs c pre. s \<in> set ss \<and> getCharacteristics s = Some cs \<and> find writable cs = Some c
        \<and> snd (sendList c 0 (chunks bytes))
        \<and> fst (tryServices ss bytes)
            = pre @ map (\<lambda>ch. WriteValue (char_uuid c) ch True) (chunks bytes)"
proof (induction ss)
  case Nil
  then show ?case by simp
next
  case (Cons s ss)
  show ?case
  proof (cases "servicePrints bytes s")
    case True
    then obtain cs c where c: "getCharacteristics s = Some cs" "find writable cs = Some c"
      "snd (sendList c 0 (chunks bytes))"
      by (auto simp: servicePrints_def split: option.splits)
    have "fst (tryServices (s # ss) bytes) = fst (sendList c 0 (chunks bytes))"
      using True c by (simp only: tryServices_Cons) (simp add: tryCharacteristics_find)
    also have "\<dots> = [] @ map (\<lambda>ch. WriteValue (char_uuid c) ch True) (chunks bytes)"
      using sendList_events_ok[OF c(3)] by simp
    finally show ?thesis using c by (intro exI[of _ s] exI[of _ cs] exI[of _ c] exI[of _ "[]"]) simp
  next
    case False
    with Cons.prems have p: "snd (tryServices ss bytes)"
      by (simp only: tryServices_Cons) (simp split: option.splits)
    from Cons.IH[OF p] obtain s' cs c pre where h: "s' \<in> set ss" "getCharacteristics s' = Some cs"
      "find writable cs = Some c" "snd (sendList c 0 (chunks bytes))"
      "fst (tryServices ss bytes) = pre @ map (\<lambda>ch. WriteValue (char_uuid c) ch True) (chunks bytes)"
      by blast
    have "\<exists>pre'. fst (tryServices (s # ss) bytes) = pre' @ fst (tryServices ss bytes)"
    proof (cases "getCharacteristics s")
      case None
      then have "fst (tryServices (s # ss) bytes) = [] @ fst (tryServices ss bytes)" by simp
      then show ?thesis by blast
    next
      case (Some cs')
      then have "fst (tryServices (s # ss) bytes)
          = fst (tryCharacteristics cs' bytes) @ fst (tryServices ss bytes)"
        using False by (simp only: tryServices_Cons) simp
      then show ?thesis by blast
    qed
    then obtain pre' where "fst (tryServices (s # ss) bytes) = pre' @ fst (tryServices ss bytes)"
      by blast
    with h(5) have "fst (tryServices (s # ss) bytes)
        = (pre' @ pre) @ map (\<lambda>ch. WriteValue (char_uuid c) ch True) (chunks bytes)" by simp
    with h(1-4) show ?thesis
      by (intro exI[of _ s'] exI[of _ cs] exI[of _ c] exI[of _ "pre' @ pre"]) simp
  qed
qed

lemma no_writable_no_print:
  "\<not> list_ex (\<lambda>s. case getCharacteristics s of None \<Rightarrow> False | Some cs \<Rightarrow> list_ex writable cs) ss
     \<Longrightarrow> tryServices ss bytes = ([], False)"
proof (induction ss)
  case Nil
  then show ?case by simp
next
  case (Cons s ss)
  then have r: "tryServices ss bytes = ([], False)" by simp
  show ?case
  proof (cases "getCharacteristics s")
    case None
    then show ?thesis using r by simp
  next
    case (Some cs)
    with Cons.prems have "\<not> list_ex writable cs" by simp
    then have "find writable cs = None" by (simp add: find_None_iff list_ex_iff)
    then show ?thesis using Some r by (simp add: tryCharacteristics_find)
  qed
qed

lemma handleSystemPrint_resolves: "snd (handleSystemPrint env) = Inr ()"
  by (simp add: handleSystemPrint_def case_prod_beta split: option.splits sum.splits)

lemma handleSystemPrint_events:
  "\<exists>rest. fst (handleSystemPrint env) = HandleSystemPrint # rest
     \<and> PrintToastSuccess ''Sent to printer!'' \<notin> set rest \<and> HandleSystemPrint \<notin> set rest"
  by (auto simp: handleSystemPrint_def case_prod_beta split: option.splits sum.splits)

lemma handleBluetoothPrint_resolves: "snd (handleBluetoothPrint env device) = Inr ()"
  by (simp add: handleBluetoothPrint_def case_prod_beta handleSystemPrint_resolves
      split: sum.splits)

lemma not_write_notin:
  "list_all is_write evs \<Longrightarrow> \<not> is_write e \<Longrightarrow> e \<notin> set evs"
  by (auto simp: list_all_iff)

lemma tryServices_no_toast:
  "PrintToastSuccess m \<notin> set (fst (tryServices ss bytes))"
  by (rule not_write_notin[OF tryServices_writes]) (simp add: is_write_def)

lemma tryServices_no_fallback:
  "HandleSystemPrint \<notin> set (fst (tryServices ss bytes))"
  by (rule not_write_notin[OF tryServices_writes]) (simp add: is_write_def)

lemma handleBluetoothPrint_connected:
  assumes "gatt device = Some g" "connect g" "generateHighQualityStrip env = Some bytes"
    "getPrimaryServices g = Some ss"
  shows "fst (handleBluetoothPrint env device) =
     SetIsPrinting True # GattConnected # fst (tryServices ss bytes)
       @ (if snd (tryServices ss bytes) then [PrintToastSuccess ''Sent to printer!'']
          else PrintToastInfo ''Direct print not supported. Opening print dialog...''
                 # fst (handleSystemPrint env))
       @ (if disconnect_throws g
          then [PrintConsoleError (JsError ''disconnect threw''),
                PrintToastInfo ''Opening system print dialog instead...'']
               @ fst (handleSystemPrint env)
          else [Disconnected])
       @ [SetIsPrinting False]"
  using assms
  by (simp add: handleBluetoothPrint_def bluetoothPrint_try_def case_prod_beta
      handleSystemPrint_resolves)

lemma handleBluetoothPrint_failed:
  assumes "gatt device = None \<or> (\<exists>g. gatt device = Some g \<and>
      (\<not> connect g \<or> generateHighQualityStrip env = None \<or> getPrimaryServices g = None))"
  shows "\<exists>pre e. set pre \<subseteq> {GattConnected} \<and> fst (handleBluetoothPrint env device) =
     SetIsPrinting True # pre
       @ [PrintConsoleError e, PrintToastInfo ''Opening system print dialog instead...'']
       @ fst (handleSystemPrint env) @ [SetIsPrinting False]"
proof -
  consider (a) "gatt device = None"
    | (b) g where "gatt device = Some g" "\<not> connect g"
    | (c) g where "gatt device = Some g" "connect g" "generateHighQualityStrip env = None"
    | (d) g bytes where "gatt device = Some g" "connect g"
        "generateHighQualityStrip env = Some bytes" "getPrimaryServices g = None"
    using assms by (cases "generateHighQualityStrip env") auto
  then show ?thesis
  proof cases
    case a
    then have "fst (handleBluetoothPrint env device) =
       SetIsPrinting True # []
       @ [PrintConsoleError (JsError ''Could not connect to device''),
          PrintToastInfo ''Opening system print dialog instead...'']
       @ fst (handleSystemPrint env) @ [SetIsPrinting False]"
      by (simp add: handleBluetoothPrint_def bluetoothPrint_try_def case_prod_beta)
    then show ?thesis by (intro exI[of _ "[]"] exI) auto
  next
    case b
    then have "fst (handleBluetoothPrint env device) =
       SetIsPrinting True # []
       @ [PrintConsoleError (JsError ''connect rejected''),
          PrintToastInfo ''Opening system print dialog instead...'']
       @ fst (handleSystemPrint env) @ [SetIsPrinting False]"
      by (simp add: handleBluetoothPrint_def bluetoothPrint_try_def case_prod_beta)
    then show ?thesis by (intro exI[of _ "[]"] exI) auto
  next
    case c
    then have "fst (handleBluetoothPrint env device) =
       SetIsPrinting True # [GattConnected]
       @ [PrintConsoleError (JsError ''Failed to load image''),
          PrintToastInfo ''Opening system print dialog instead...'']
       @ fst (handleSystemPrint env) @ [SetIsPrinting False]"
      by (simp add: handleBluetoothPrint_def bluetoothPrint_try_def case_prod_beta)
    then show ?thesis by (intro exI[of _ "[GattConnected]"] exI) auto
  next
    case d
    then have "fst (handleBluetoothPrint env device) =
       SetIsPrinting True # [GattConnected]
       @ [PrintConsoleError (JsError ''getPrimaryServices rejected''),
          PrintToastInfo ''Opening system print dialog instead...'']
       @ fst (handleSystemPrint env) @ [SetIsPrinting False]"
      by (simp add: handleBluetoothPrint_def bluetoothPrint_try_def case_prod_beta)
    then show ?thesis by (intro exI[of _ "[GattConnected]"] exI) auto
  qed
qed

lemma failed_fallback:
  assumes "gatt device = None \<or> (\<exists>g. gatt device = Some g \<and>
      (\<not> connect g \<or> generateHighQualityStrip env = None \<or> getPrimaryServices g = None))"
  shows "HandleSystemPrint \<in> set (fst (handleBluetoothPrint env device))
     \<and> PrintToastSuccess ''Sent to printer!'' \<notin> set (fst (handleBluetoothPrint env device))"
proof -
  from handleBluetoothPrint_failed[OF assms] obtain pre e where
    p: "set pre \<subseteq> {GattConnected}" and
    e: "fst (handleBluetoothPrint env device) =
     SetIsPrinting True # pre
       @ [PrintConsoleError e, PrintToastInfo ''Opening system print dialog instead...'']
       @ fst (handleSystemPrint env) @ [SetIsPrinting False]" by blast
  from handleSystemPrint_events[of env] obtain rest where
    r: "fst (handleSystemPrint env) = HandleSystemPrint # rest"
       "PrintToastSuccess ''Sent to printer!'' \<notin> set rest" by blast
  from p have "PrintToastSuccess ''Sent to printer!'' \<notin> set pre" by auto
  with r show ?thesis unfolding e by simp
qed

lemma connected_fallback:
  assumes "gatt device = Some g" "connect g" "generateHighQualityStrip env = Some bytes"
    "getPrimaryServices g = Some ss"
  shows "(HandleSystemPrint \<in> set (fst (handleBluetoothPrint env device))
            \<longleftrightarrow> \<not> list_ex (servicePrints bytes) ss \<or> disconnect_throws g)
     \<and> (PrintToastSuccess ''Sent to printer!'' \<in> set (fst (handleBluetoothPrint env device))
            \<longleftrightarrow> list_ex (servicePrints bytes) ss)"
proof -
  from handleSystemPrint_events[of env] obtain rest where
    r: "fst (handleSystemPrint env) = HandleSystemPrint # rest"
       "PrintToastSuccess ''Sent to printer!'' \<notin> set rest" by blast
  show ?thesis
    unfolding handleBluetoothPrint_connected[OF assms]
    using r tryServices_no_toast[of _ ss bytes] tryServices_no_fallback[of ss bytes]
    by (simp add: tryServices_printed)
qed

lemma sent_implies_print:
  assumes g: "generateHighQualityStrip env = Some bytes"
    and t: "PrintToastSuccess ''Sent to printer!'' \<in> set (fst (handleBluetoothPrint env device))"
  shows "\<exists>g ss s cs c pre post.
      gatt device = Some g \<and> connect g \<and> getPrimaryServices g = Some ss \<and> s \<in> set ss
      \<and> getCharacteristics s = Some cs \<and> find writable cs = Some c
      \<and> (\<forall>k < length (chunks bytes). writeValue c k (chunks bytes ! k))
      \<and> fst (handleBluetoothPrint env device)
          = pre @ map (\<lambda>b. WriteValue (char_uuid c) b True) (chunks bytes)
              @ PrintToastSuccess ''Sent to printer!'' # post"
proof -
  have n: "\<not> (gatt device = None \<or> (\<exists>g. gatt device = Some g \<and>
      (\<not> connect g \<or> generateHighQualityStrip env = None \<or> getPrimaryServices g = None)))"
    using failed_fallback[of device env] t by blast
  then obtain gs ss where c: "gatt device = Some gs" "connect gs" "getPrimaryServices gs = Some ss"
    by (cases "gatt device") auto
  from connected_fallback[OF c(1,2) g c(3)] t have p: "snd (tryServices ss bytes)"
    by (simp add: tryServices_printed)
  from tryServices_events[OF p] obtain s cs ch pre where
    h: "s \<in> set ss" "getCharacteristics s = Some cs" "find writable cs = Some ch"
       "snd (sendList ch 0 (chunks bytes))"
       "fst (tryServices ss bytes) = pre @ map (\<lambda>b. WriteValue (char_uuid ch) b True) (chunks bytes)"
    by blast
  from h(4) have w: "\<forall>k < length (chunks bytes). writeValue ch k (chunks bytes ! k)"
    by (simp add: sendList_ok)
  let ?post = "(if disconnect_throws gs
          then [PrintConsoleError (JsError ''disconnect threw''),
                PrintToastInfo ''Opening system print dialog instead...'']
               @ fst (handleSystemPrint env)
          else [Disconnected]) @ [SetIsPrinting False]"
  have e: "fst (handleBluetoothPrint env device)
      = (SetIsPrinting True # GattConnected # pre)
          @ map (\<lambda>b. WriteValue (char_uuid ch) b True) (chunks bytes)
          @ PrintToastSuccess ''Sent to printer!'' # ?post"
    unfolding handleBluetoothPrint_connected[OF c(1,2) g c(3)] using p h(5) by simp
  from c h(1-3) w e show ?thesis by blast
qed

lemma tryServices_retry:
  assumes "getCharacteristics sv = Some chars" "find writable chars = Some wc"
    "\<not> snd (writeChunks wc bytes 0)"
  shows "tryServices (sv # rest) bytes
     = (fst (writeChunks wc bytes 0) @ fst (tryServices rest bytes), snd (tryServices rest bytes))"
proof -
  from assms have "\<not> servicePrints bytes sv" by (simp add: servicePrints_def writeChunks_0)
  then show ?thesis
    using assms(1,2)
    by (simp only: tryServices_Cons) (simp add: tryCharacteristics_find writeChunks_0)
qed

lemma servicePrints_iff:
  "servicePrints bytes sv \<longleftrightarrow>
     (\<exists>cs w. getCharacteristics sv = Some cs \<and> find writable cs = Some w
        \<and> (\<forall>k < length (chunks bytes). writeValue w k (chunks bytes ! k)))"
  by (auto simp: servicePrints_def sendList_ok split: option.splits)

text \<open>
  C2 (amended): a buffer of \<open>N\<close> bytes is cut into \<open>ceil(N/512)\<close> chunks, each of
  1 to 512 bytes, chunk \<open>k\<close> holding the bytes from \<open>k*512\<close> up to
  \<open>min((k+1)*512, N)\<close>, together the buffer in order. The chunk loop writes them to
  the selected characteristic one at a time, each write awaited before the next is
  issued: it runs through all \<open>ceil(N/512)\<close> writes exactly when every write
  resolves, and otherwise stops at the first rejected write, after the chunks before it.
  The session reports success (\<open>Sent to printer!\<close>) only if some service's first
  writable characteristic took all \<open>ceil(N/512)\<close> chunks, every one of these writes
  succeeding, in order and right before the report. A write rejected on an earlier
  service's characteristic does not end the session: that service is abandoned and the
  next one is tried (the loop over the services, after the writes to the failed
  characteristic, goes on with the remaining services and has their result); once
  connected, with the image and the list of services at hand, success is reported exactly
  when some service carries the print, whatever was rejected before it.
\<close>

theorem C2_chunked_writes:
  "length (chunks bytes) = (length bytes + 511) div 512
   \<and> concat (chunks bytes) = bytes
   \<and> (\<forall>k < length (chunks bytes).
         chunks bytes ! k
           = take (min ((k + 1) * 512) (length bytes) - k * 512) (drop (k * 512) bytes)
         \<and> 0 < length (chunks bytes ! k) \<and> length (chunks bytes ! k) \<le> 512)
   \<and> (snd (writeChunks c bytes 0)
         \<longleftrightarrow> (\<forall>k < length (chunks bytes). writeValue c k (chunks bytes ! k)))
   \<and> (snd (writeChunks c bytes 0) \<longrightarrow>
         fst (writeChunks c bytes 0)
           = map (\<lambda>b. WriteValue (char_uuid c) b True) (chunks bytes))
   \<and> (\<not> snd (writeChunks c bytes 0) \<longrightarrow>
         (\<exists>j < length (chunks bytes).
            fst (writeChunks c bytes 0)
              = map (\<lambda>b. WriteValue (char_uuid c) b True) (take j (chunks bytes))
                  @ [WriteValue (char_uuid c) (chunks bytes ! j) False]))
   \<and> (generateHighQualityStrip env = Some bytes
        \<and> PrintToastSuccess ''Sent to printer!'' \<in> set (fst (handleBluetoothPrint env device))
        \<longrightarrow>
         (\<exists>g ss s cs w pre post.
            gatt device = Some g \<and> connect g \<and> getPrimaryServices g = Some ss \<and> s \<in> set ss
            \<and> getCharacteristics s = Some cs \<and> find writable cs = Some w
            \<and> (\<forall>k < length (chunks bytes). writeValue w k (chunks bytes ! k))
            \<and> fst (handleBluetoothPrint env device)
                = pre @ map (\<lambda>b. WriteValue (char_uuid w) b True) (chunks bytes)
                    @ PrintToastSuccess ''Sent to printer!'' # post))
   \<and> (getCharacteristics sv = Some chars \<and> find writable chars = Some wc
        \<and> \<not> snd (writeChunks wc bytes 0) \<longrightarrow>
         tryServices (sv # rest) bytes
           = (fst (writeChunks wc bytes 0) @ fst (tryServices rest bytes),
              snd (tryServices rest bytes)))
   \<and> (servicePrints bytes sv \<longleftrightarrow>
         (\<exists>cs w. getCharacteristics sv = Some cs \<and> find writable cs = Some w
            \<and> (\<forall>k < length (chunks bytes). writeValue w k (chunks bytes ! k))))
   \<and> (gatt device = Some server \<and> connect server
        \<and> generateHighQualityStrip env = Some bytes \<and> getPrimaryServices server = Some svcs
        \<longrightarrow>
         (PrintToastSuccess ''Sent to printer!'' \<in> set (fst (handleBluetoothPrint env device))
            \<longleftrightarrow> list_ex (servicePrints bytes) svcs))"
proof -
  have a: "length (chunks bytes) = (length bytes + 511) div 512" by (rule length_chunks)
  have b: "concat (chunks bytes) = bytes" by (rule concat_chunks)
  have c: "\<forall>k < length (chunks bytes).
         chunks bytes ! k
           = take (min ((k + 1) * 512) (length bytes) - k * 512) (drop (k * 512) bytes)
         \<and> 0 < length (chunks bytes ! k) \<and> length (chunks bytes ! k) \<le> 512"
    using chunk_nth chunk_length by blast
  have d: "snd (writeChunks c bytes 0)
         \<longleftrightarrow> (\<forall>k < length (chunks bytes). writeValue c k (chunks bytes ! k))"
    by (simp add: writeChunks_0 sendList_ok)
  have e: "snd (writeChunks c bytes 0) \<longrightarrow>
         fst (writeChunks c bytes 0)
           = map (\<lambda>b. WriteValue (char_uuid c) b True) (chunks bytes)"
    by (simp add: writeChunks_0 sendList_events_ok)
  have f: "\<not> snd (writeChunks c bytes 0) \<longrightarrow>
         (\<exists>j < length (chunks bytes).
            fst (writeChunks c bytes 0)
              = map (\<lambda>b. WriteValue (char_uuid c) b True) (take j (chunks bytes))
                  @ [WriteValue (char_uuid c) (chunks bytes ! j) False])"
    unfolding writeChunks_0 using sendList_events_failed[of c 0 "chunks bytes"] by blast
  have g: "generateHighQualityStrip env = Some bytes
        \<and> PrintToastSuccess ''Sent to printer!'' \<in> set (fst (handleBluetoothPrint env device))
        \<longrightarrow>
         (\<exists>g ss s cs w pre post.
            gatt device = Some g \<and> connect g \<and> getPrimaryServices g = Some ss \<and> s \<in> set ss
            \<and> getCharacteristics s = Some cs \<and> find writable cs = Some w
            \<and> (\<forall>k < length (chunks bytes). writeValue w k (chunks bytes ! k))
            \<and> fst (handleBluetoothPrint env device)
                = pre @ map (\<lambda>b. WriteValue (char_uuid w) b True) (chunks bytes)
                    @ PrintToastSuccess ''Sent to printer!'' # post)"
    using sent_implies_print[of env bytes device] by blast
  have h: "getCharacteristics sv = Some chars \<and> find writable chars = Some wc
        \<and> \<not> snd (writeChunks wc bytes 0) \<longrightarrow>
         tryServices (sv # rest) bytes
           = (fst (writeChunks wc bytes 0) @ fst (tryServices rest bytes),
              snd (tryServices rest bytes))"
    using tryServices_retry by blast
  have i: "servicePrints bytes sv \<longleftrightarrow>
         (\<exists>cs w. getCharacteristics sv = Some cs \<and> find writable cs = Some w
            \<and> (\<forall>k < length (chunks bytes). writeValue w k (chunks bytes ! k)))"
    by (rule servicePrints_iff)
  have j: "gatt device = Some server \<and> connect server
        \<and> generateHighQualityStrip env = Some bytes \<and> getPrimaryServices server = Some svcs
        \<longrightarrow>
         (PrintToastSuccess ''Sent to printer!'' \<in> set (fst (handleBluetoothPrint env device))
            \<longleftrightarrow> list_ex (servicePrints bytes) svcs)"
    using connected_fallback[of device server env bytes svcs] by blast
  from a b c d e f g h i j show ?thesis by blast
qed

lemma servicePrints_fails:
  assumes "\<forall>s \<in> set ss. \<forall>cs w. getCharacteristics s = Some cs \<and> find writable cs = Some w \<longrightarrow>
      (\<exists>k < length (chunks bytes). \<not> writeValue w k (chunks bytes ! k))"
  shows "\<not> list_ex (servicePrints bytes) ss"
proof -
  have "\<not> servicePrints bytes s" if "s \<in> set ss" for s
    using assms that by (auto simp: servicePrints_def sendList_ok split: option.splits)
  then show ?thesis by (simp add: list_ex_iff)
qed

lemma servicePrints_no_writable:
  assumes "\<not> list_ex (\<lambda>s. case getCharacteristics s of None \<Rightarrow> False
                               | Some cs \<Rightarrow> list_ex writable cs) ss"
  shows "\<not> list_ex (servicePrints bytes) ss"
  using no_writable_no_print[OF assms, of bytes] tryServices_printed[of ss bytes] by simp

text \<open>
  C4 (amended): \<open>handleBluetoothPrint\<close> never ends in an unhandled error: its promise
  always resolves. It invokes the system print fallback whenever the device has no GATT
  server or the connection fails (or the image or the list of services cannot be had);
  and, once connected, exactly when no service carries the print (or \<open>disconnect\<close>
  throws): in particular when no writable characteristic is found among the enumerated
  services, and when the first writable characteristic of every service that has one
  rejects a write. A rejected write alone does not route to the fallback: it abandons
  that service, the next service is tried, and if one of them takes every chunk, success
  is reported instead.
\<close>

theorem C4_print_fallback:
  "snd (handleBluetoothPrint env device) = Inr ()
   \<and> (gatt device = None \<or> (\<exists>g. gatt device = Some g \<and>
         (\<not> connect g \<or> generateHighQualityStrip env = None \<or> getPrimaryServices g = None))
       \<longrightarrow> HandleSystemPrint \<in> set (fst (handleBluetoothPrint env device)))
   \<and> (gatt device = Some g \<and> connect g \<and> generateHighQualityStrip env = Some bytes
        \<and> getPrimaryServices g = Some ss \<longrightarrow>
         (HandleSystemPrint \<in> set (fst (handleBluetoothPrint env device))
            \<longleftrightarrow> \<not> list_ex (servicePrints bytes) ss \<or> disconnect_throws g)
         \<and> (PrintToastSuccess ''Sent to printer!'' \<in> set (fst (handleBluetoothPrint env device))
            \<longleftrightarrow> list_ex (servicePrints bytes) ss)
         \<and> (\<not> list_ex (\<lambda>s. case getCharacteristics s of None \<Rightarrow> False
                                   | Some cs \<Rightarrow> list_ex writable cs) ss
              \<longrightarrow> HandleSystemPrint \<in> set (fst (handleBluetoothPrint env device)))
         \<and> ((\<forall>s \<in> set ss. \<forall>cs w.
                 getCharacteristics s = Some cs \<and> find writable cs = Some w \<longrightarrow>
                 (\<exists>k < length (chunks bytes). \<not> writeValue w k (chunks bytes ! k)))
              \<longrightarrow> HandleSystemPrint \<in> set (fst (handleBluetoothPrint env device))))"
proof -
  have a: "snd (handleBluetoothPrint env device) = Inr ()"
    by (rule handleBluetoothPrint_resolves)
  have b: "gatt device = None \<or> (\<exists>g. gatt device = Some g \<and>
         (\<not> connect g \<or> generateHighQualityStrip env = None \<or> getPrimaryServices g = None))
       \<longrightarrow> HandleSystemPrint \<in> set (fst (handleBluetoothPrint env device))"
    using failed_fallback[of device env] by blast
  have c: "gatt device = Some g \<and> connect g \<and> generateHighQualityStrip env = Some bytes
        \<and> getPrimaryServices g = Some ss \<longrightarrow>
         (HandleSystemPrint \<in> set (fst (handleBluetoothPrint env device))
            \<longleftrightarrow> \<not> list_ex (servicePrints bytes) ss \<or> disconnect_throws g)
         \<and> (PrintToastSuccess ''Sent to printer!'' \<in> set (fst (handleBluetoothPrint env device))
            \<longleftrightarrow> list_ex (servicePrints bytes) ss)
         \<and> (\<not> list_ex (\<lambda>s. case getCharacteristics s of None \<Rightarrow> False
                                   | Some cs \<Rightarrow> list_ex writable cs) ss
              \<longrightarrow> HandleSystemPrint \<in> set (fst (handleBluetoothPrint env device)))
         \<and> ((\<forall>s \<in> set ss. \<forall>cs w.
                 getCharacteristics s = Some cs \<and> find writable cs = Some w \<longrightarrow>
                 (\<exists>k < length (chunks bytes). \<not> writeValue w k (chunks bytes ! k)))
              \<longrightarrow> HandleSystemPrint \<in> set (fst (handleBluetoothPrint env device)))"
  proof
    assume h: "gatt device = Some g \<and> connect g \<and> generateHighQualityStrip env = Some bytes
        \<and> getPrimaryServices g = Some ss"
    then have f: "(HandleSystemPrint \<in> set (fst (handleBluetoothPrint env device))
            \<longleftrightarrow> \<not> list_ex (servicePrints bytes) ss \<or> disconnect_throws g)
         \<and> (PrintToastSuccess ''Sent to printer!'' \<in> set (fst (handleBluetoothPrint env device))
            \<longleftrightarrow> list_ex (servicePrints bytes) ss)"
      using connected_fallback[of device g env bytes ss] by blast
    from f servicePrints_no_writable[of ss bytes] servicePrints_fails[of ss bytes]
    show "(HandleSystemPrint \<in> set (fst (handleBluetoothPrint env device))
            \<longleftrightarrow> \<not> list_ex (servicePrints bytes) ss \<or> disconnect_throws g)
         \<and> (PrintToastSuccess ''Sent to printer!'' \<in> set (fst (handleBluetoothPrint env device))
            \<longleftrightarrow> list_ex (servicePrints bytes) ss)
         \<and> (\<not> list_ex (\<lambda>s. case getCharacteristics s of None \<Rightarrow> False
                                   | Some cs \<Rightarrow> list_ex writable cs) ss
              \<longrightarrow> HandleSystemPrint \<in> set (fst (handleBluetoothPrint env device)))
         \<and> ((\<forall>s \<in> set ss. \<forall>cs w.
                 getCharacteristics s = Some cs \<and> find writable cs = Some w \<longrightarrow>
                 (\<exists>k < length (chunks bytes). \<not> writeValue w k (chunks bytes ! k)))
              \<longrightarrow> HandleSystemPrint \<in> set (fst (handleBluetoothPrint env device)))"
      by blast
  qed
  from a b c show ?thesis by blast
qed

lemmas print_eval =
  handleBluetoothPrint_def bluetoothPrint_try_def handleSystemPrint_def writeChunks_0
  chunks_def writable_def case_prod_beta numeral_2_eq_2

text \<open>
  C2, as stated, fails where it says that success is reported only if every write
  succeeded (and that exactly \<open>ceil(N/512)\<close> writes are issued): with 600 bytes, the
  second write to the first service's characteristic is rejected, the loop over the
  services goes on, the second service takes both chunks, and success is reported after
  four writes, one of them failed.
\<close>

theorem C2_chunked_writes_counterexample:
  "fst (handleBluetoothPrint
      \<lparr>generateHighQualityStrip = Some (replicate 600 0), window_open = True\<rparr>
      \<lparr>gatt = Some \<lparr>connect = True,
         getPrimaryServices = Some
           [\<lparr>service_uuid = ''s1'', getCharacteristics = Some
               [\<lparr>char_uuid = ''c1'', prop_write = True, prop_writeWithoutResponse = False,
                  writeValue = rejects_from 1\<rparr>]\<rparr>,
            \<lparr>service_uuid = ''s2'', getCharacteristics = Some
               [\<lparr>char_uuid = ''c2'', prop_write = True, prop_writeWithoutResponse = False,
                  writeValue = resolves\<rparr>]\<rparr>],
         disconnect_throws = False\<rparr>\<rparr>)
   = [SetIsPrinting True, GattConnected,
      WriteValue ''c1'' (replicate 512 0) True, WriteValue ''c1'' (replicate 88 0) False,
      WriteValue ''c2'' (replicate 512 0) True, WriteValue ''c2'' (replicate 88 0) True,
      PrintToastSuccess ''Sent to printer!'', Disconnected, SetIsPrinting False]"
  by (simp add: print_eval)

text \<open>
  C4, as stated, fails where it says that any failed characteristic write invokes the
  fallback: the write to the first writable characteristic of the first service is
  rejected (its other writable characteristic is never tried), the second service cannot
  list its characteristics, the third prints; success is reported and the system print
  dialog is not opened.
\<close>

theorem C4_print_fallback_counterexample:
  "fst (handleBluetoothPrint
      \<lparr>generateHighQualityStrip = Some [7], window_open = True\<rparr>
      \<lparr>gatt = Some \<lparr>connect = True,
         getPrimaryServices = Some
           [\<lparr>service_uuid = ''s1'', getCharacteristics = Some
               [\<lparr>char_uuid = ''c0'', prop_write = False, prop_writeWithoutResponse = False,
                  writeValue = resolves\<rparr>,
                \<lparr>char_uuid = ''c1'', prop_write = True, prop_writeWithoutResponse = False,
                  writeValue = rejects\<rparr>,
                \<lparr>char_uuid = ''c2'', prop_write = True, prop_writeWithoutResponse = False,
                  writeValue = resolves\<rparr>]\<rparr>,
            \<lparr>service_uuid = ''s2'', getCharacteristics = None\<rparr>,
            \<lparr>service_uuid = ''s3'', getCharacteristics = Some
               [\<lparr>char_uuid = ''c3'', prop_write = False, prop_writeWithoutResponse = True,
                  writeValue = resolves\<rparr>]\<rparr>],
         disconnect_throws = False\<rparr>\<rparr>)
   = [SetIsPrinting True, GattConnected,
      WriteValue ''c1'' [7] False, WriteValue ''c3'' [7] True,
      PrintToastSuccess ''Sent to printer!'', Disconnected, SetIsPrinting False]
   \<and> HandleSystemPrint \<notin> set (fst (handleBluetoothPrint
      \<lparr>generateHighQualityStrip = Some [7], window_open = True\<rparr>
      \<lparr>gatt = Some \<lparr>connect = True,
         getPrimaryServices = Some
           [\<lparr>service_uuid = ''s1'', getCharacteristics = Some
               [\<lparr>char_uuid = ''c0'', prop_write = False, prop_writeWithoutResponse = False,
                  writeValue = resolves\<rparr>,
                \<lparr>char_uuid = ''c1'', prop_write = True, prop_writeWithoutResponse = False,
                  writeValue = rejects\<rparr>,
                \<lparr>char_uuid = ''c2'', prop_write = True, prop_writeWithoutResponse = False,
                  writeValue = resolves\<rparr>]\<rparr>,
            \<lparr>service_uuid = ''s2'', getCharacteristics = None\<rparr>,
            \<lparr>service_uuid = ''s3'', getCharacteristics = Some
               [\<lparr>char_uuid = ''c3'', prop_write = False, prop_writeWithoutResponse = True,
                  writeValue = resolves\<rparr>]\<rparr>],
         disconnect_throws = False\<rparr>\<rparr>))"
  by (simp add: print_eval)

theorem C2_chunked_writes_witness:
  "length (chunks (replicate 600 0)) = 2
   \<and> chunks (replicate 600 0) = [replicate 512 0, replicate 88 0]
   \<and> fst (writeChunks
        \<lparr>char_uuid = ''c'', prop_write = True, prop_writeWithoutResponse = False,
          writeValue = resolves\<rparr> (replicate 600 0) 0)
       = [WriteValue ''c'' (replicate 512 0) True, WriteValue ''c'' (replicate 88 0) True]
   \<and> fst (writeChunks
        \<lparr>char_uuid = ''c'', prop_write = True, prop_writeWithoutResponse = False,
          writeValue = rejects_from 1\<rparr> (replicate 600 0) 0)
       = [WriteValue ''c'' (replicate 512 0) True, WriteValue ''c'' (replicate 88 0) False]
   \<and> (\<exists>pre post. fst (handleBluetoothPrint
          \<lparr>generateHighQualityStrip = Some (replicate 600 0), window_open = True\<rparr>
          \<lparr>gatt = Some \<lparr>connect = True,
             getPrimaryServices = Some
               [\<lparr>service_uuid = ''s'', getCharacteristics = Some
                   [\<lparr>char_uuid = ''c'', prop_write = True, prop_writeWithoutResponse = False,
                      writeValue = resolves\<rparr>]\<rparr>],
             disconnect_throws = False\<rparr>\<rparr>)
        = pre @ [WriteValue ''c'' (replicate 512 0) True, WriteValue ''c'' (replicate 88 0) True,
                 PrintToastSuccess ''Sent to printer!''] @ post)
   \<and> tryServices
        [\<lparr>service_uuid = ''s1'', getCharacteristics = Some
            [\<lparr>char_uuid = ''c'', prop_write = True, prop_writeWithoutResponse = False,
               writeValue = rejects_from 1\<rparr>]\<rparr>,
         \<lparr>service_uuid = ''s'', getCharacteristics = Some
            [\<lparr>char_uuid = ''c'', prop_write = True, prop_writeWithoutResponse = False,
               writeValue = resolves\<rparr>]\<rparr>] (replicate 600 0)
       = ([WriteValue ''c'' (replicate 512 0) True, WriteValue ''c'' (replicate 88 0) False,
           WriteValue ''c'' (replicate 512 0) True, WriteValue ''c'' (replicate 88 0) True],
          True)
   \<and> PrintToastSuccess ''Sent to printer!'' \<in> set (fst (handleBluetoothPrint
          \<lparr>generateHighQualityStrip = Some (replicate 600 0), window_open = True\<rparr>
          \<lparr>gatt = Some \<lparr>connect = True,
             getPrimaryServices = Some
               [\<lparr>service_uuid = ''s1'', getCharacteristics = Some
                   [\<lparr>char_uuid = ''c'', prop_write = True, prop_writeWithoutResponse = False,
                      writeValue = rejects_from 1\<rparr>]\<rparr>,
                \<lparr>service_uuid = ''s'', getCharacteristics = Some
                   [\<lparr>char_uuid = ''c'', prop_write = True, prop_writeWithoutResponse = False,
                      writeValue = resolves\<rparr>]\<rparr>],
             disconnect_throws = False\<rparr>\<rparr>))"
proof -
  let ?bytes = "replicate 600 (0::byte)"
  let ?ok = "\<lparr>char_uuid = ''c'', prop_write = True, prop_writeWithoutResponse = False,
          writeValue = resolves\<rparr>"
  let ?bad = "\<lparr>char_uuid = ''c'', prop_write = True, prop_writeWithoutResponse = False,
          writeValue = rejects_from 1\<rparr>"
  let ?env = "\<lparr>generateHighQualityStrip = Some ?bytes, window_open = True\<rparr>"
  let ?dev = "\<lparr>gatt = Some \<lparr>connect = True,
             getPrimaryServices = Some
               [\<lparr>service_uuid = ''s'', getCharacteristics = Some [?ok]\<rparr>],
             disconnect_throws = False\<rparr>\<rparr>"
  have ch: "chunks ?bytes = [replicate 512 0, replicate 88 0]"
    by (simp add: chunks_def numeral_2_eq_2)
  have n: "length (chunks ?bytes) = 2"
    using C2_chunked_writes[of ?bytes] by simp
  have all: "\<forall>k < length (chunks ?bytes). writeValue ?ok k (chunks ?bytes ! k)" by simp
  have 1: "fst (writeChunks ?ok ?bytes 0)
      = map (\<lambda>b. WriteValue (char_uuid ?ok) b True) (chunks ?bytes)"
    using C2_chunked_writes[of ?bytes ?ok] all by blast
  have nb: "\<not> snd (writeChunks ?bad ?bytes 0)"
  proof -
    have "\<not> (\<forall>k < length (chunks ?bytes). writeValue ?bad k (chunks ?bytes ! k))"
      by (simp add: ch) (rule exI[of _ 1], simp)
    then show ?thesis using C2_chunked_writes[of ?bytes ?bad] by blast
  qed
  have 2: "fst (writeChunks ?bad ?bytes 0)
       = [WriteValue ''c'' (replicate 512 0) True, WriteValue ''c'' (replicate 88 0) False]"
    by (simp add: writeChunks_0 ch)
  have t: "generateHighQualityStrip ?env = Some ?bytes
        \<and> PrintToastSuccess ''Sent to printer!'' \<in> set (fst (handleBluetoothPrint ?env ?dev))"
    by (simp add: print_eval)
  from C2_chunked_writes[where bytes = ?bytes and env = ?env and device = ?dev,
      THEN conjunct2, THEN conjunct2, THEN conjunct2, THEN conjunct2, THEN conjunct2,
      THEN conjunct2, THEN conjunct1] t
  obtain g ss s cs w pre post where o: "gatt ?dev = Some g" "getPrimaryServices g = Some ss"
    "s \<in> set ss" "getCharacteristics s = Some cs" "find writable cs = Some w"
    "fst (handleBluetoothPrint ?env ?dev)
       = pre @ map (\<lambda>b. WriteValue (char_uuid w) b True) (chunks ?bytes)
           @ PrintToastSuccess ''Sent to printer!'' # post"
    by blast
  from o(1) have "g = \<lparr>connect = True,
             getPrimaryServices = Some
               [\<lparr>service_uuid = ''s'', getCharacteristics = Some [?ok]\<rparr>],
             disconnect_throws = False\<rparr>" by simp
  with o(2) have "ss = [\<lparr>service_uuid = ''s'', getCharacteristics = Some [?ok]\<rparr>]" by simp
  with o(3) have "s = \<lparr>service_uuid = ''s'', getCharacteristics = Some [?ok]\<rparr>" by simp
  with o(4) have "cs = [?ok]" by simp
  with o(5,6) have w: "find writable [?ok] = Some w"
    "fst (handleBluetoothPrint ?env ?dev)
       = pre @ map (\<lambda>b. WriteValue (char_uuid w) b True) (chunks ?bytes)
           @ PrintToastSuccess ''Sent to printer!'' # post"
    by simp_all
  from w(1) have "w = ?ok" by (simp add: writable_def)
  with w(2) have 3: "\<exists>pre post. fst (handleBluetoothPrint ?env ?dev)
        = pre @ [WriteValue ''c'' (replicate 512 0) True, WriteValue ''c'' (replicate 88 0) True,
                 PrintToastSuccess ''Sent to printer!''] @ post"
    by (simp only: ch) auto
  let ?s1 = "\<lparr>service_uuid = ''s1'', getCharacteristics = Some [?bad]\<rparr>"
  let ?s2 = "\<lparr>service_uuid = ''s'', getCharacteristics = Some [?ok]\<rparr>"
  let ?g2 = "\<lparr>connect = True, getPrimaryServices = Some [?s1, ?s2], disconnect_throws = False\<rparr>"
  have fb: "getCharacteristics ?s1 = Some [?bad] \<and> find writable [?bad] = Some ?bad
      \<and> \<not> snd (writeChunks ?bad ?bytes 0)"
    using nb by (simp add: writable_def)
  have "tryServices (?s1 # [?s2]) ?bytes
      = (fst (writeChunks ?bad ?bytes 0) @ fst (tryServices [?s2] ?bytes),
         snd (tryServices [?s2] ?bytes))"
    using C2_chunked_writes[where bytes = ?bytes and sv = ?s1 and chars = "[?bad]"
        and wc = ?bad and rest = "[?s2]"] fb by blast
  moreover have "tryServices [?s2] ?bytes
      = ([WriteValue ''c'' (replicate 512 0) True, WriteValue ''c'' (replicate 88 0) True], True)"
    by (simp add: writeChunks_0 ch writable_def)
  ultimately have 4: "tryServices [?s1, ?s2] ?bytes
       = ([WriteValue ''c'' (replicate 512 0) True, WriteValue ''c'' (replicate 88 0) False,
           WriteValue ''c'' (replicate 512 0) True, WriteValue ''c'' (replicate 88 0) True],
          True)"
    by (simp only: 2) simp
  have sp: "servicePrints ?bytes ?s2"
  proof -
    have "\<exists>cs w. getCharacteristics ?s2 = Some cs \<and> find writable cs = Some w
        \<and> (\<forall>k < length (chunks ?bytes). writeValue w k (chunks ?bytes ! k))"
      by (intro exI[of _ "[?ok]"] exI[of _ ?ok]) (simp add: writable_def)
    then show ?thesis
      using C2_chunked_writes[where bytes = ?bytes and sv = ?s2] by blast
  qed
  then have le: "list_ex (servicePrints ?bytes) [?s1, ?s2]" by simp
  have pc: "gatt \<lparr>gatt = Some ?g2\<rparr> = Some ?g2 \<and> connect ?g2
      \<and> generateHighQualityStrip ?env = Some ?bytes \<and> getPrimaryServices ?g2 = Some [?s1, ?s2]"
    by simp
  have 5: "PrintToastSuccess ''Sent to printer!''
      \<in> set (fst (handleBluetoothPrint ?env \<lparr>gatt = Some ?g2\<rparr>))"
    using C2_chunked_writes[where bytes = ?bytes and env = ?env
        and device = "\<lparr>gatt = Some ?g2\<rparr>" and server = ?g2 and svcs = "[?s1, ?s2]"] pc le
    by blast
  from n ch 1 2 3 4 5 show ?thesis by (simp only: ch) simp
qed

theorem C4_print_fallback_witness:
  "HandleSystemPrint \<in> set (fst (handleBluetoothPrint
      \<lparr>generateHighQualityStrip = Some [7], window_open = True\<rparr>
      \<lparr>gatt = Some \<lparr>connect = True,
         getPrimaryServices = Some
           [\<lparr>service_uuid = ''s1'', getCharacteristics = Some
               [\<lparr>char_uuid = ''c1'', prop_write = True, prop_writeWithoutResponse = False,
                  writeValue = rejects\<rparr>]\<rparr>],
         disconnect_throws = False\<rparr>\<rparr>))
   \<and> HandleSystemPrint \<in> set (fst (handleBluetoothPrint
      \<lparr>generateHighQualityStrip = Some [7], window_open = True\<rparr>
      \<lparr>gatt = Some \<lparr>connect = False, getPrimaryServices = None, disconnect_throws = False\<rparr>\<rparr>))
   \<and> HandleSystemPrint \<in> set (fst (handleBluetoothPrint
      \<lparr>generateHighQualityStrip = Some [7], window_open = True\<rparr>
      \<lparr>gatt = Some \<lparr>connect = True,
         getPrimaryServices = Some
           [\<lparr>service_uuid = ''s1'', getCharacteristics = Some
               [\<lparr>char_uuid = ''c0'', prop_write = False, prop_writeWithoutResponse = False,
                  writeValue = resolves\<rparr>]\<rparr>],
         disconnect_throws = False\<rparr>\<rparr>))
   \<and> snd (handleBluetoothPrint
      \<lparr>generateHighQualityStrip = None, window_open = False\<rparr> \<lparr>gatt = None\<rparr>) = Inr ()"
proof -
  let ?env = "\<lparr>generateHighQualityStrip = Some [7], window_open = True\<rparr>"
  let ?c1 = "\<lparr>char_uuid = ''c1'', prop_write = True, prop_writeWithoutResponse = False,
                  writeValue = rejects\<rparr>"
  let ?c0 = "\<lparr>char_uuid = ''c0'', prop_write = False, prop_writeWithoutResponse = False,
                  writeValue = resolves\<rparr>"
  let ?g1 = "\<lparr>connect = True,
         getPrimaryServices = Some [\<lparr>service_uuid = ''s1'', getCharacteristics = Some [?c1]\<rparr>],
         disconnect_throws = False\<rparr>"
  let ?g0 = "\<lparr>connect = True,
         getPrimaryServices = Some [\<lparr>service_uuid = ''s1'', getCharacteristics = Some [?c0]\<rparr>],
         disconnect_throws = False\<rparr>"
  let ?gx = "\<lparr>connect = False, getPrimaryServices = None, disconnect_throws = False\<rparr>"
  have ch: "chunks [7] = [[7]]" by (simp add: chunks_def)
  have f1: "\<forall>s \<in> set [\<lparr>service_uuid = ''s1'', getCharacteristics = Some [?c1]\<rparr>]. \<forall>cs w.
       getCharacteristics s = Some cs \<and> find writable cs = Some w \<longrightarrow>
       (\<exists>k < length (chunks [7]). \<not> writeValue w k (chunks [7] ! k))"
    by (auto simp: ch writable_def)
  have p1: "gatt \<lparr>gatt = Some ?g1\<rparr> = Some ?g1 \<and> connect ?g1
      \<and> generateHighQualityStrip ?env = Some [7]
      \<and> getPrimaryServices ?g1 = Some [\<lparr>service_uuid = ''s1'', getCharacteristics = Some [?c1]\<rparr>]"
    by simp
  have 1: "HandleSystemPrint \<in> set (fst (handleBluetoothPrint ?env \<lparr>gatt = Some ?g1\<rparr>))"
    using C4_print_fallback[of ?env "\<lparr>gatt = Some ?g1\<rparr>" ?g1 "[7]"
        "[\<lparr>service_uuid = ''s1'', getCharacteristics = Some [?c1]\<rparr>]"] p1 f1
    by blast
  have px: "\<exists>g. gatt \<lparr>gatt = Some ?gx\<rparr> = Some g \<and>
         (\<not> connect g \<or> generateHighQualityStrip ?env = None \<or> getPrimaryServices g = None)"
    by simp
  have 2: "HandleSystemPrint \<in> set (fst (handleBluetoothPrint ?env \<lparr>gatt = Some ?gx\<rparr>))"
    using C4_print_fallback[of ?env "\<lparr>gatt = Some ?gx\<rparr>"] px by blast
  have f0: "\<not> list_ex (\<lambda>s. case getCharacteristics s of None \<Rightarrow> False
                                   | Some cs \<Rightarrow> list_ex writable cs)
       [\<lparr>service_uuid = ''s1'', getCharacteristics = Some [?c0]\<rparr>]"
    by (simp add: writable_def)
  have p0: "gatt \<lparr>gatt = Some ?g0\<rparr> = Some ?g0 \<and> connect ?g0
      \<and> generateHighQualityStrip ?env = Some [7]
      \<and> getPrimaryServices ?g0 = Some [\<lparr>service_uuid = ''s1'', getCharacteristics = Some [?c0]\<rparr>]"
    by simp
  have 3: "HandleSystemPrint \<in> set (fst (handleBluetoothPrint ?env \<lparr>gatt = Some ?g0\<rparr>))"
    using C4_print_fallback[of ?env "\<lparr>gatt = Some ?g0\<rparr>" ?g0 "[7]"
        "[\<lparr>service_uuid = ''s1'', getCharacteristics = Some [?c0]\<rparr>]"] p0 f0
    by blast
  have 4: "snd (handleBluetoothPrint
      \<lparr>generateHighQualityStrip = None, window_open = False\<rparr> \<lparr>gatt = None\<rparr>) = Inr ()"
    using C4_print_fallback[of "\<lparr>generateHighQualityStrip = None, window_open = False\<rparr>"
        "\<lparr>gatt = None\<rparr>"] by blast
  from 1 2 3 4 show ?thesis by blast
qed

end
